theory Spec2Isabelle
  imports Complex_Main "HOL-Library.Word"
begin

unbundle bit_operations_syntax

section \<open>Machine types\<close>

text \<open>
  The firmware runs on an ESP32: \<open>uint8_t\<close>, \<open>uint16_t\<close> and \<open>uint32_t\<close> are words that
  wrap around; \<open>int8_t\<close> is an 8-bit word read in two's complement (\<open>-1 = 255\<close>); an
  \<open>int\<close> has 32 bits, so every \<open>uint8_t\<close> and \<open>uint16_t\<close> operand of an arithmetic
  operator or of a comparison is first promoted to \<open>int\<close>. The promoted value is written
  \<open>uint w\<close> below, and a result stored back into a \<open>uint8_t\<close> is \<open>word_of_int\<close>.
\<close>

type_synonym u8 = "8 word"
type_synonym u16 = "16 word"
type_synonym u32 = "32 word"
type_synonym i8 = "8 word"

section \<open>Glow points (LEDPatterns.h, LEDPatterns.cpp)\<close>

text \<open>\<open>#define MAX_GLOW_POINTS 5\<close>\<close>

definition MAX_GLOW_POINTS :: nat where
  "MAX_GLOW_POINTS = 5"

text \<open>\<open>struct GlowPoint\<close>; \<open>state\<close> is 1 = growing, 0 = stable, -1 = fading.\<close>

record GlowPoint =
  pos :: u16
  hue :: u8
  spread :: u8
  maxIntensity :: u8
  currentIntensity :: u8
  state :: i8
  active :: bool

text \<open>
  The member \<open>GlowPoint glowPoints[MAX_GLOW_POINTS]\<close> is a list; every operation below
  keeps its length, and the theorems are about pools of length \<open>MAX_GLOW_POINTS\<close>.
\<close>

type_synonym pool = "GlowPoint list"

definition activeCount :: "pool \<Rightarrow> nat" where
  "activeCount gp = length (filter active gp)"

subsection \<open>\<open>LEDPatterns::addGlowPoint\<close>\<close>

text \<open>
  The body of the slot found by the scan: the seven assignments of lines 126 to 132.
\<close>

definition newGlowPoint :: "u16 \<Rightarrow> u8 \<Rightarrow> u8 \<Rightarrow> u8 \<Rightarrow> GlowPoint" where
  "newGlowPoint p h s intensity =
     \<lparr>pos = p, hue = h, spread = s, maxIntensity = intensity,
      currentIntensity = 0, state = 1, active = True\<rparr>"

text \<open>
  \<open>for (uint8_t i = 0; i < MAX_GLOW_POINTS; i++)\<close>: the scan from slot \<open>i\<close> on. The
  result is the pool and the returned \<open>int8_t\<close>: the index of the slot taken, or -1.
\<close>

function addGlowPoint_scan ::
  "nat \<Rightarrow> pool \<Rightarrow> u16 \<Rightarrow> u8 \<Rightarrow> u8 \<Rightarrow> u8 \<Rightarrow> pool \<times> int" where
  "addGlowPoint_scan i gp p h s intensity =
     (if i < MAX_GLOW_POINTS then
        (if \<not> active (gp ! i) then (gp[i := newGlowPoint p h s intensity], int i)
         else addGlowPoint_scan (i + 1) gp p h s intensity)
      else (gp, -1))"
  by pat_completeness auto
termination
  by (relation "measure (\<lambda>(i, gp, p, h, s, intensity). MAX_GLOW_POINTS - i)") auto

declare addGlowPoint_scan.simps [simp del]

definition addGlowPoint :: "pool \<Rightarrow> u16 \<Rightarrow> u8 \<Rightarrow> u8 \<Rightarrow> u8 \<Rightarrow> pool \<times> int" where
  "addGlowPoint gp p h s intensity = addGlowPoint_scan 0 gp p h s intensity"

subsection \<open>\<open>LEDPatterns::updateGlowPoint\<close>\<close>

text \<open>
  \<open>uint8_t change = max(1, speed / 20)\<close>: the division and the maximum are computed on
  \<open>int\<close>, the result is at most 12 and is stored in a \<open>uint8_t\<close>.
\<close>

definition change_of :: "u8 \<Rightarrow> u8" where
  "change_of speed = word_of_int (max 1 (uint speed div 20))"

text \<open>
  One call on the slot's record. \<open>roll\<close> is the value \<open>random8()\<close> returns when the
  stable branch asks for it; the other branches draw nothing. The result is the record
  and the returned \<open>bool\<close>.
\<close>

definition updatePoint :: "GlowPoint \<Rightarrow> u8 \<Rightarrow> u8 \<Rightarrow> GlowPoint \<times> bool" where
  "updatePoint g speed roll =
     (if \<not> active g then (g, False)
      else
        let g1 = (if state g \<noteq> 1 \<and> state g \<noteq> 0 \<and> state g \<noteq> - 1
                  then g\<lparr>state := - 1\<rparr> else g);
            change = change_of speed
        in
          if state g1 = 1 then
            let newIntensity = currentIntensity g1;
                newIntensity' = (if 255 - uint newIntensity > uint change
                                 then newIntensity + change else 255);
                newIntensity'' = (if newIntensity' > maxIntensity g1
                                  then maxIntensity g1 else newIntensity');
                g2 = g1\<lparr>currentIntensity := newIntensity''\<rparr>
            in (if currentIntensity g2 \<ge> maxIntensity g2 then g2\<lparr>state := 0\<rparr> else g2, True)
          else if state g1 = - 1 then
            (if currentIntensity g1 \<le> change then (g1\<lparr>active := False\<rparr>, False)
             else (g1\<lparr>currentIntensity := currentIntensity g1 - change\<rparr>, True))
          else if state g1 = 0 then
            (if roll < 5 then g1\<lparr>state := - 1\<rparr> else g1, True)
          else (g1, True))"

text \<open>
  \<open>updateGlowPoint(index, speed)\<close> works on \<open>glowPoints[index]\<close>. An index outside the
  array is undefined behaviour in C++; the model returns \<open>None\<close> there.
\<close>

definition updateGlowPoint :: "pool \<Rightarrow> u8 \<Rightarrow> u8 \<Rightarrow> u8 \<Rightarrow> (pool \<times> bool) option" where
  "updateGlowPoint gp index speed roll =
     (if unat index < length gp then
        (let (g, r) = updatePoint (gp ! unat index) speed roll
         in Some (gp[unat index := g], r))
      else None)"

subsection \<open>\<open>LEDPatterns::gentleGlow\<close>\<close>

text \<open>
  Modelled from the spec: \<open>map\<close> is the Arduino core's function, absent from src/; the
  spec calls it a linear map of one range into another. The core computes
  \<open>(x - in_min) * (out_max - out_min) / (in_max - in_min) + out_min\<close> on \<open>long\<close>, with
  C's division, which truncates towards zero. The source calls it with constant ranges,
  \<open>in_min\<close> below \<open>in_max\<close>, and with values that are far from overflowing a \<open>long\<close>.
\<close>

definition tdiv :: "int \<Rightarrow> int \<Rightarrow> int" where
  "tdiv a b = sgn a * sgn b * (\<bar>a\<bar> div \<bar>b\<bar>)"

definition arduino_map :: "int \<Rightarrow> int \<Rightarrow> int \<Rightarrow> int \<Rightarrow> int \<Rightarrow> int" where
  "arduino_map x in_min in_max out_min out_max =
     tdiv ((x - in_min) * (out_max - out_min)) (in_max - in_min) + out_min"

text \<open>
  The outcomes of the random generator during one call of \<open>gentleGlow\<close>, in the order
  the code draws them: \<open>stableRoll i\<close> is \<open>random8()\<close> for slot \<open>i\<close> when that slot is
  stable, \<open>spawnRoll\<close> is \<open>random8()\<close> of line 269, \<open>posDraw\<close> is \<open>random16(numLeds)\<close>,
  \<open>hueVar\<close>, \<open>spreadVar\<close> and \<open>intensityVar\<close> are \<open>random8(10)\<close>, \<open>random8(2)\<close> and
  \<open>random8(20)\<close>, which lie below 10, 2 and 20.
\<close>

record draws =
  stableRoll :: "nat \<Rightarrow> u8"
  spawnRoll :: u8
  posDraw :: u16
  hueVar :: u8
  spreadVar :: u8
  intensityVar :: u8

text \<open>
  The first loop, from slot \<open>i\<close> on. \<open>renderGlowPoint\<close> reads the pool and writes only
  the frame buffer, so the pool after the loop does not depend on it.
\<close>

function updateAll :: "nat \<Rightarrow> pool \<Rightarrow> u8 \<Rightarrow> (nat \<Rightarrow> u8) \<Rightarrow> pool" where
  "updateAll i gp speed rolls =
     (if i < MAX_GLOW_POINTS then
        (if active (gp ! i)
         then updateAll (i + 1) (gp[i := fst (updatePoint (gp ! i) speed (rolls i))]) speed rolls
         else updateAll (i + 1) gp speed rolls)
      else gp)"
  by pat_completeness auto
termination
  by (relation "measure (\<lambda>(i, gp, speed, rolls). MAX_GLOW_POINTS - i)") auto

declare updateAll.simps [simp del]

text \<open>
  \<open>gentleGlow\<close> clears the frame, runs the first loop, counts the active points and may
  spawn one. \<open>fill_solid\<close> and \<open>renderGlowPoint\<close> write the frame only; the model is
  the pool. Lines 258 to 280: count the active points and, below capacity, spawn one when
  the roll exceeds the threshold. The three arguments of \<open>addGlowPoint\<close> are computed
  on \<open>int\<close> and converted to \<open>uint8_t\<close> at the call.
\<close>

definition spawnPhase :: "pool \<Rightarrow> u8 \<Rightarrow> u8 \<Rightarrow> u8 \<Rightarrow> u8 \<Rightarrow> draws \<Rightarrow> pool" where
  "spawnPhase gp h brightness speed sprd d =
     (if activeCount gp < MAX_GLOW_POINTS then
        (let threshold = (word_of_int (arduino_map (uint speed) 0 255 250 180) :: u8)
         in if spawnRoll d > threshold then
              fst (addGlowPoint gp (posDraw d)
                     (word_of_int (uint h + uint (hueVar d) - 5))
                     (word_of_int (uint sprd + uint (spreadVar d) - 1))
                     (word_of_int (uint brightness - uint (intensityVar d))))
            else gp)
      else gp)"

definition gentleGlow :: "pool \<Rightarrow> u8 \<Rightarrow> u8 \<Rightarrow> u8 \<Rightarrow> u8 \<Rightarrow> draws \<Rightarrow> pool" where
  "gentleGlow gp h brightness speed sprd d =
     spawnPhase (updateAll 0 gp speed (stableRoll d)) h brightness speed sprd d"

text \<open>
  A call of the glow engine, and a sequence of calls. \<open>None\<close> is the undefined behaviour of
  an index outside the array.
\<close>

datatype call =
    GentleGlow u8 u8 u8 u8 draws
  | AddGlowPoint u16 u8 u8 u8
  | UpdateGlowPoint u8 u8 u8

fun exec :: "pool \<Rightarrow> call \<Rightarrow> pool option" where
  "exec gp (GentleGlow h brightness speed sprd d) = Some (gentleGlow gp h brightness speed sprd d)"
| "exec gp (AddGlowPoint p h s intensity) = Some (fst (addGlowPoint gp p h s intensity))"
| "exec gp (UpdateGlowPoint index speed roll) = map_option fst (updateGlowPoint gp index speed roll)"

fun run :: "pool \<Rightarrow> call list \<Rightarrow> pool option" where
  "run gp [] = Some gp"
| "run gp (c # cs) = (case exec gp c of None \<Rightarrow> None | Some gp' \<Rightarrow> run gp' cs)"

text \<open>
  A call is in range when it does not index outside \<open>glowPoints\<close>; \<open>gentleGlow\<close>, the only
  caller of \<open>updateGlowPoint\<close> in the source, passes indices below \<open>MAX_GLOW_POINTS\<close> only.
\<close>

fun inRange :: "call \<Rightarrow> bool" where
  "inRange (UpdateGlowPoint index speed roll) = (unat index < MAX_GLOW_POINTS)"
| "inRange c = True"

subsection \<open>The life of one glow point\<close>

text \<open>
  The records a slot holds before and after each of a sequence of \<open>updateGlowPoint\<close>
  calls; each call comes with its \<open>speed\<close> argument and the outcome of \<open>random8()\<close>.
\<close>

fun lifecycle :: "GlowPoint \<Rightarrow> (u8 \<times> u8) list \<Rightarrow> GlowPoint list" where
  "lifecycle g [] = [g]"
| "lifecycle g ((speed, roll) # ins) = g # lifecycle (fst (updatePoint g speed roll)) ins"

text \<open>The invariant of a slot that was filled by \<open>addGlowPoint\<close>.\<close>

definition validPoint :: "GlowPoint \<Rightarrow> bool" where
  "validPoint g \<longleftrightarrow> currentIntensity g \<le> maxIntensity g \<and>
     (state g = 1 \<or> state g = 0 \<or> state g = - 1) \<and> (state g = 1 \<longrightarrow> active g)"

subsection \<open>Example data\<close>

definition fullPool :: pool where
  "fullPool = replicate 5 (newGlowPoint 7 160 3 200)"

definition someDraws :: draws where
  "someDraws = \<lparr>stableRoll = (\<lambda>i. 0), spawnRoll = 255, posDraw = 12, hueVar = 9,
                 spreadVar = 1, intensityVar = 15\<rparr>"

definition demoInputs :: "(u8 \<times> u8) list" where
  "demoInputs = [(20, 0), (20, 0), (20, 0), (20, 0), (20, 0), (20, 0)]"

definition demoTrace :: "GlowPoint list" where
  "demoTrace = lifecycle (newGlowPoint 7 160 3 2) demoInputs"

text \<open>A point with target 12 and three calls at speed 255 (step 12) with roll 0.\<close>

definition steepInputs :: "(u8 \<times> u8) list" where
  "steepInputs = [(255, 0), (255, 0), (255, 0)]"

definition steepTrace :: "GlowPoint list" where
  "steepTrace = lifecycle (newGlowPoint 7 160 3 12) steepInputs"

definition fadingPoint :: GlowPoint where
  "fadingPoint = \<lparr>pos = 7, hue = 160, spread = 3, maxIntensity = 200,
                   currentIntensity = 100, state = - 1, active = True\<rparr>"

definition growingPoint :: GlowPoint where
  "growingPoint = \<lparr>pos = 7, hue = 160, spread = 3, maxIntensity = 200,
                   currentIntensity = 199, state = 1, active = True\<rparr>"

definition emptyPool :: pool where
  "emptyPool = replicate 5 (fadingPoint\<lparr>active := False\<rparr>)"

section \<open>Signal conditioning (the sketch's \<open>loop\<close>)\<close>

text \<open>
  The constants of the sketch. \<open>PRESENCE_MIN_VALUE\<close> and \<open>MOTION_MIN_VALUE\<close> are
  \<open>uint16_t\<close> and are compared after promotion to \<open>int\<close>.
\<close>

definition PRESENCE_LOG_SCALE_FACTOR :: u8 where
  "PRESENCE_LOG_SCALE_FACTOR = 60"

definition MOTION_LOG_SCALE_FACTOR :: u8 where
  "MOTION_LOG_SCALE_FACTOR = 70"

definition PRESENCE_MIN_VALUE :: int where
  "PRESENCE_MIN_VALUE = 70"

definition MOTION_MIN_VALUE :: int where
  "MOTION_MIN_VALUE = 70"

definition DEBOUNCE_COUNT :: int where
  "DEBOUNCE_COUNT = 3"

definition INTENSITY_MAX :: int where
  "INTENSITY_MAX = 255"

text \<open>
  The conversion of a floating-point value to an integer type drops the fraction. For a
  value that does not fit the \<open>uint8_t\<close> the conversion is undefined in C++; the ESP32's
  compiler converts to a 32-bit integer and keeps its low byte, which is what
  \<open>word_of_int\<close> does.
\<close>

definition truncate_real :: "real \<Rightarrow> int" where
  "truncate_real x = (if 0 \<le> x then \<lfloor>x\<rfloor> else \<lceil>x\<rceil>)"

definition to_uint8 :: "real \<Rightarrow> u8" where
  "to_uint8 x = word_of_int (truncate_real x)"

text \<open>
  Modelled from the spec: \<open>constrain\<close> is a macro of the Arduino core, absent from src/;
  the spec writes it \<open>clamp(x, 0, 255)\<close>. The macro is
  \<open>((amt) < (low) ? (low) : ((amt) > (high) ? (high) : (amt)))\<close>.
\<close>

definition constrain :: "int \<Rightarrow> int \<Rightarrow> int \<Rightarrow> int" where
  "constrain amt low high = (if amt < low then low else if amt > high then high else amt)"

text \<open>
  Lines 328 and 329 (and 360 and 361 for motion):
  \<open>constrain((uint8_t)(log10(abs(value) + 1) * SCALE), 0, INTENSITY_MAX)\<close>. The value is
  an \<open>int16_t\<close>, read by \<open>sint\<close>; the cast to \<open>uint8_t\<close> comes before \<open>constrain\<close>.
  \<open>logScaled a scale\<close> is the floating-point expression \<open>log10(a + 1) * scale\<close>, read
  as the exact operations on real numbers; \<open>log10\<close> is the C library's decimal logarithm,
  of which the rounding is not specified. The library's result can differ from the exact
  one in the last place, so the truncated value can differ by one where the exact product
  is that near to an integer (the reading 1067 at scale 70, with the product 211.99998).
  The products evaluated below, 138.19, 255.32 and 258.06, are far from an integer.
\<close>

definition logScaled :: "int \<Rightarrow> int \<Rightarrow> real" where
  "logScaled a scale = log 10 (real_of_int a + 1) * real_of_int scale"

definition logIntensity :: "16 word \<Rightarrow> u8 \<Rightarrow> u8" where
  "logIntensity v scale =
     word_of_int (constrain (uint (to_uint8 (logScaled \<bar>sint v\<bar> (uint scale)))) 0 INTENSITY_MAX)"

text \<open>
  The state of one channel: \<open>presenceDetected\<close>, \<open>presenceIntensity\<close>,
  \<open>presenceDetectionCount\<close> and \<open>presenceNonDetectionCount\<close>, or the four motion variables.
\<close>

record Channel =
  detected :: bool
  intensity :: u8
  detectionCount :: u8
  nonDetectionCount :: u8

text \<open>
  One pass of \<open>loop\<close> over one channel (lines 316 to 341 for presence, 348 to 373 for
  motion): \<open>v\<close> is the value read from the sensor and \<open>flag\<close> says whether the status
  flag of the channel is 1. \<open>countUp c\<close> is \<open>min(c + 1, 255)\<close>, computed on \<open>int\<close> and
  stored in the \<open>uint8_t\<close> counter.
\<close>

definition countUp :: "u8 \<Rightarrow> u8" where
  "countUp c = word_of_int (min (uint c + 1) 255)"

definition qualifies :: "int \<Rightarrow> 16 word \<Rightarrow> bool \<Rightarrow> bool" where
  "qualifies minValue v flag \<longleftrightarrow> \<bar>sint v\<bar> > minValue \<and> flag"

definition pollChannel :: "int \<Rightarrow> u8 \<Rightarrow> Channel \<Rightarrow> 16 word \<Rightarrow> bool \<Rightarrow> Channel" where
  "pollChannel minValue scale ch v flag =
     (if qualifies minValue v flag then
        (let ch1 = ch\<lparr>detectionCount := countUp (detectionCount ch),
                      nonDetectionCount := 0\<rparr>
         in if uint (detectionCount ch1) \<ge> DEBOUNCE_COUNT
            then ch1\<lparr>detected := True, intensity := logIntensity v scale\<rparr>
            else ch1)
      else
        (let ch1 = ch\<lparr>nonDetectionCount := countUp (nonDetectionCount ch),
                      detectionCount := 0\<rparr>
         in if uint (nonDetectionCount ch1) \<ge> DEBOUNCE_COUNT
            then ch1\<lparr>detected := False, intensity := 0\<rparr>
            else ch1))"

definition pollPresence :: "Channel \<Rightarrow> 16 word \<Rightarrow> bool \<Rightarrow> Channel" where
  "pollPresence = pollChannel PRESENCE_MIN_VALUE PRESENCE_LOG_SCALE_FACTOR"

definition pollMotion :: "Channel \<Rightarrow> 16 word \<Rightarrow> bool \<Rightarrow> Channel" where
  "pollMotion = pollChannel MOTION_MIN_VALUE MOTION_LOG_SCALE_FACTOR"

text \<open>Consecutive passes of \<open>loop\<close>, each with its reading and flag.\<close>

fun polls :: "int \<Rightarrow> u8 \<Rightarrow> Channel \<Rightarrow> (16 word \<times> bool) list \<Rightarrow> Channel" where
  "polls minValue scale ch [] = ch"
| "polls minValue scale ch ((v, flag) # rest) =
     polls minValue scale (pollChannel minValue scale ch v flag) rest"

text \<open>The state at start-up: the initial values of the global variables.\<close>

definition initialChannel :: Channel where
  "initialChannel = \<lparr>detected = False, intensity = 0, detectionCount = 0, nonDetectionCount = 0\<rparr>"

text \<open>Example channel states.\<close>

definition quietChannel :: Channel where
  "quietChannel = \<lparr>detected = False, intensity = 0, detectionCount = 0, nonDetectionCount = 7\<rparr>"

definition busyChannel :: Channel where
  "busyChannel = \<lparr>detected = True, intensity = 138, detectionCount = 200, nonDetectionCount = 0\<rparr>"

section \<open>Floating point\<close>

text \<open>
  The sketch keeps the smoothed intensities in \<open>float\<close> variables and evaluates the smoothing
  update partly in \<open>double\<close>. A finite value of a binary format with \<open>p\<close> significant bits
  and least exponent \<open>emin\<close> is \<open>m * 2^q\<close> with \<open>|m| < 2^p\<close> and \<open>emin \<le> q\<close>; \<open>float\<close> is
  \<open>p = 24\<close>, \<open>emin = -149\<close> and \<open>double\<close> is \<open>p = 53\<close>, \<open>emin = -1074\<close>. An arithmetic
  operation or a conversion returns the exact result rounded to the nearest value of the
  format, a tie going to the even significand (IEEE 754, the default rounding). Overflow,
  which needs a magnitude of \<open>2^128\<close>, is not modelled: the intensities are at most 255.
\<close>

text \<open>\<open>ilog2 n\<close> is the position of the highest set bit of \<open>n \<ge> 1\<close>.\<close>

function ilog2 :: "int \<Rightarrow> nat" where
  "ilog2 n = (if n < 2 then 0 else Suc (ilog2 (n div 2)))"
  by pat_completeness auto
termination
  by (relation "measure nat") auto

declare ilog2.simps [simp del]

text \<open>\<open>floor_log2 a\<close> is the exponent \<open>k\<close> with \<open>2^k \<le> a < 2^(k+1)\<close>, for \<open>a > 0\<close>.\<close>

definition floor_log2 :: "real \<Rightarrow> int" where
  "floor_log2 a =
     (if 1 \<le> a then int (ilog2 \<lfloor>a\<rfloor>)
      else let j = ilog2 \<lfloor>1 / a\<rfloor>
           in if a * 2 ^ j = 1 then - int j else - int j - 1)"

text \<open>The nearest integer, a tie going to the even one.\<close>

definition round_even :: "real \<Rightarrow> int" where
  "round_even z =
     (let f = \<lfloor>z\<rfloor>; d = z - real_of_int f
      in if d < 1 / 2 then f else if 1 / 2 < d then f + 1 else if even f then f else f + 1)"

text \<open>
  Rounding to the format: \<open>q\<close> is the exponent of the last place of \<open>y\<close>, which is
  \<open>emin\<close> for a subnormal \<open>y\<close>.
\<close>

definition round_to :: "nat \<Rightarrow> int \<Rightarrow> real \<Rightarrow> real" where
  "round_to p emin y =
     (if y = 0 then 0
      else let q = max emin (floor_log2 \<bar>y\<bar> - int p + 1)
           in real_of_int (round_even (y / 2 powi q)) * 2 powi q)"

text \<open>
  The finite values of the format; they are the values that \<open>round_to\<close> returns
  unchanged.
\<close>

definition representable :: "nat \<Rightarrow> int \<Rightarrow> real \<Rightarrow> bool" where
  "representable p emin v \<longleftrightarrow>
     (\<exists>m q. v = real_of_int m * 2 powi q \<and> \<bar>m\<bar> < 2 ^ p \<and> emin \<le> q)"

text \<open>The conversion to \<open>float\<close> and to \<open>double\<close>, and the rounding of a result of that type.\<close>

definition to_float :: "real \<Rightarrow> real" where
  "to_float y = round_to 24 (- 149) y"

definition to_double :: "real \<Rightarrow> real" where
  "to_double y = round_to 53 (- 1074) y"

section \<open>Parameter mapping (the sketch's \<open>updateLEDPattern\<close>)\<close>

text \<open>
  The constants of the sketch. \<open>const float SMOOTHING_FACTOR = 0.1\<close>: the literal is the
  \<open>double\<close> nearest to 0.1, and the constant is that value converted to \<open>float\<close>.
\<close>

definition SMOOTHING_FACTOR :: real where
  "SMOOTHING_FACTOR = to_float (to_double (1 / 10))"

definition INTENSITY_LOW :: int where
  "INTENSITY_LOW = 64"

definition INTENSITY_MEDIUM :: int where
  "INTENSITY_MEDIUM = 128"

definition BRIGHTNESS_MIN :: int where
  "BRIGHTNESS_MIN = 80"

definition BRIGHTNESS_MAX :: int where
  "BRIGHTNESS_MAX = 220"

definition SPEED_MIN :: int where
  "SPEED_MIN = 20"

definition SPEED_MAX :: int where
  "SPEED_MAX = 100"

definition HUE_COOL :: int where
  "HUE_COOL = 160"

definition HUE_NEUTRAL :: int where
  "HUE_NEUTRAL = 96"

definition HUE_WARM :: int where
  "HUE_WARM = 0"

definition SPREAD_MIN :: int where
  "SPREAD_MIN = 3"

definition SPREAD_MAX :: int where
  "SPREAD_MAX = 8"

definition TRANSITION_DURATION :: u16 where
  "TRANSITION_DURATION = 1000"

definition MIN_UPDATE_INTERVAL :: int where
  "MIN_UPDATE_INTERVAL = 250"

text \<open>
  The global variables the function reads and writes: the two smoothed intensities, the
  parameters last applied and the time of the last applied change.
\<close>

record Mapper =
  smoothedPresenceIntensity :: real
  smoothedMotionIntensity :: real
  lastHue :: u8
  lastBrightness :: u8
  lastSpeed :: u8
  lastSpread :: u8
  lastPatternChange :: u32

text \<open>The four local variables \<open>newHue\<close>, \<open>newBrightness\<close>, \<open>newSpeed\<close>, \<open>newSpread\<close>.\<close>

record Params =
  newHue :: u8
  newBrightness :: u8
  newSpeed :: u8
  newSpread :: u8

text \<open>
  Lines 140 and 141: \<open>smoothed = (SMOOTHING_FACTOR * new) + ((1.0 - SMOOTHING_FACTOR) * smoothed)\<close>.
  \<open>new\<close> is a \<open>uint8_t\<close>, converted to \<open>float\<close> for the first product, which is a
  \<open>float\<close>; \<open>1.0\<close> is a \<open>double\<close>, so the difference, the second product and the sum are
  computed in \<open>double\<close>; the assignment converts the sum to \<open>float\<close>.
\<close>

definition smooth :: "real \<Rightarrow> real \<Rightarrow> real \<Rightarrow> real" where
  "smooth \<alpha> x s =
     to_float (to_double (to_float (\<alpha> * to_float x) + to_double (to_double (1 - \<alpha>) * s)))"

definition smoothInputs :: "Mapper \<Rightarrow> u8 \<Rightarrow> u8 \<Rightarrow> Mapper" where
  "smoothInputs st presenceIntensity motionIntensity =
     st\<lparr>smoothedPresenceIntensity :=
          smooth SMOOTHING_FACTOR (real_of_int (uint presenceIntensity)) (smoothedPresenceIntensity st),
        smoothedMotionIntensity :=
          smooth SMOOTHING_FACTOR (real_of_int (uint motionIntensity)) (smoothedMotionIntensity st)\<rparr>"

text \<open>
  Lines 143 to 182: the candidate parameters, from the detection flags and the smoothed
  intensities. Every result of \<open>map\<close> and of the \<open>int\<close> sums is stored in a \<open>uint8_t\<close>.
\<close>

definition candidate :: "bool \<Rightarrow> bool \<Rightarrow> real \<Rightarrow> real \<Rightarrow> Params" where
  "candidate presence motion sp sm =
     (let smoothedPresenceInt = to_uint8 sp;
          smoothedMotionInt = to_uint8 sm;
          brightness0 = arduino_map (uint smoothedPresenceInt) 0 INTENSITY_MAX BRIGHTNESS_MIN BRIGHTNESS_MAX;
          speed0 = arduino_map (uint smoothedMotionInt) 0 INTENSITY_MAX SPEED_MIN SPEED_MAX;
          hue0 = (if motion \<and> uint smoothedMotionInt > INTENSITY_MEDIUM
                  then arduino_map (uint smoothedMotionInt) INTENSITY_MEDIUM INTENSITY_MAX HUE_NEUTRAL HUE_WARM
                  else if presence \<and> uint smoothedPresenceInt > INTENSITY_LOW
                  then arduino_map (uint smoothedPresenceInt) INTENSITY_LOW INTENSITY_MAX HUE_COOL HUE_NEUTRAL
                  else HUE_COOL);
          combinedIntensity = max (uint smoothedPresenceInt) (uint smoothedMotionInt);
          spread0 = arduino_map combinedIntensity 0 INTENSITY_MAX SPREAD_MIN SPREAD_MAX
      in \<lparr>newHue = word_of_int hue0,
          newBrightness = word_of_int (if \<not> presence \<and> \<not> motion then BRIGHTNESS_MIN + 20 else brightness0),
          newSpeed = word_of_int (if \<not> presence \<and> \<not> motion then SPEED_MIN + 5 else speed0),
          newSpread = word_of_int spread0\<rparr>)"

text \<open>
  Lines 188 to 191: the differences are taken on \<open>int\<close>, after promotion of both operands.
\<close>

definition parametersChanged :: "Mapper \<Rightarrow> Params \<Rightarrow> bool" where
  "parametersChanged st c \<longleftrightarrow>
     \<bar>uint (newHue c) - uint (lastHue st)\<bar> > 5 \<or>
     \<bar>uint (newBrightness c) - uint (lastBrightness st)\<bar> > 8 \<or>
     \<bar>uint (newSpeed c) - uint (lastSpeed st)\<bar> > 5 \<or>
     \<bar>uint (newSpread c) - uint (lastSpread st)\<bar> > 1"

text \<open>
  The whole function; \<open>now\<close> is what \<open>millis()\<close> returns. The result is the new state
  and, when the function applies the candidate (captures the frame, calls \<open>gentleGlow\<close>
  with it and starts a transition of \<open>TRANSITION_DURATION\<close>), the candidate.
\<close>

definition updateLEDPattern ::
  "Mapper \<Rightarrow> bool \<Rightarrow> bool \<Rightarrow> u8 \<Rightarrow> u8 \<Rightarrow> u32 \<Rightarrow> Mapper \<times> Params option" where
  "updateLEDPattern st presence motion presenceIntensity motionIntensity now =
     (let st1 = smoothInputs st presenceIntensity motionIntensity;
          c = candidate presence motion (smoothedPresenceIntensity st1) (smoothedMotionIntensity st1)
      in if parametersChanged st1 c then
           (let timeSinceLastChange = now - lastPatternChange st1
            in if uint timeSinceLastChange > MIN_UPDATE_INTERVAL then
                 (st1\<lparr>lastPatternChange := now, lastHue := newHue c,
                       lastBrightness := newBrightness c, lastSpeed := newSpeed c,
                       lastSpread := newSpread c\<rparr>, Some c)
               else (st1, None))
         else (st1, None))"

text \<open>
  Consecutive calls, each with its detection flags and intensities, all at the same value
  of \<open>millis()\<close>: the list of what each call applied.
\<close>

fun emissions :: "Mapper \<Rightarrow> (bool \<times> bool \<times> u8 \<times> u8) list \<Rightarrow> u32 \<Rightarrow> Params option list" where
  "emissions st [] now = []"
| "emissions st ((presence, motion, presenceIntensity, motionIntensity) # rest) now =
     (let (st', out) = updateLEDPattern st presence motion presenceIntensity motionIntensity now
      in out # emissions st' rest now)"

text \<open>A value of a \<open>float\<close> just below 255: \<open>255 - 5 / 2^16\<close>.\<close>

definition settledValue :: real where
  "settledValue = 16711675 / 65536"

text \<open>The state at start-up, and a state some time after a change was applied.\<close>

definition initialMapper :: Mapper where
  "initialMapper = \<lparr>smoothedPresenceIntensity = 0, smoothedMotionIntensity = 0,
     lastHue = 160, lastBrightness = 80, lastSpeed = 20, lastSpread = 3, lastPatternChange = 0\<rparr>"

section \<open>Transitions (LEDPatterns.cpp)\<close>

text \<open>FastLED's \<open>CRGB\<close>: one byte per channel.\<close>

record CRGB =
  red :: u8
  green :: u8
  blue :: u8

text \<open>
  Modelled from the spec: \<open>blend\<close> is FastLED's function, absent from src/; the spec
  describes it as the linear interpolation \<open>lerp(previous, target, progress)\<close> per pixel
  and per channel. On bytes, with the amount \<open>m\<close> of the second colour out of 255, the
  library computes \<open>(a * (255 - m) + a + b * m + b) >> 8\<close> per channel, and returns the
  first colour for the amount 0 and the second for the amount 255.
\<close>

definition blend8 :: "u8 \<Rightarrow> u8 \<Rightarrow> u8 \<Rightarrow> u8" where
  "blend8 a b amountOfB =
     word_of_int ((uint a * (255 - uint amountOfB) + uint a + uint b * uint amountOfB + uint b) div 256)"

definition blend :: "CRGB \<Rightarrow> CRGB \<Rightarrow> u8 \<Rightarrow> CRGB" where
  "blend p1 p2 amountOfP2 =
     (if amountOfP2 = 0 then p1
      else if amountOfP2 = 255 then p2
      else \<lparr>red = blend8 (red p1) (red p2) amountOfP2,
            green = blend8 (green p1) (green p2) amountOfP2,
            blue = blend8 (blue p1) (blue p2) amountOfP2\<rparr>)"

text \<open>
  The members of \<open>LEDPatterns\<close> that the transition code uses. \<open>leds\<close> is the frame the
  patterns render into and the driver shows; \<open>prevLeds\<close> has the same length, \<open>numLeds\<close>.
\<close>

record Fader =
  leds :: "CRGB list"
  prevLeds :: "CRGB list"
  transitionStartTime :: u32
  transitionDuration :: u16
  transitionActive :: bool

text \<open>\<open>captureCurrentState\<close> and \<open>startTransition\<close>; \<open>now\<close> is what \<open>millis()\<close> returns.\<close>

definition captureCurrentState :: "Fader \<Rightarrow> Fader" where
  "captureCurrentState t = t\<lparr>prevLeds := leds t\<rparr>"

definition startTransition :: "Fader \<Rightarrow> u32 \<Rightarrow> u16 \<Rightarrow> Fader" where
  "startTransition t now duration =
     t\<lparr>transitionActive := True, transitionStartTime := now, transitionDuration := duration\<rparr>"

text \<open>
  \<open>updateTransitions\<close>, lines 88 to 111. \<open>progress\<close> is a \<open>float\<close>, read as a real
  number; \<open>progress * 255\<close> is converted to the \<open>fract8\<close> parameter of \<open>blend\<close>. The loop
  overwrites \<open>leds[i]\<close> with the blend of \<open>prevLeds[i]\<close> and \<open>leds[i]\<close>.
\<close>

definition updateTransitions :: "Fader \<Rightarrow> u32 \<Rightarrow> Fader \<times> bool" where
  "updateTransitions t currentTime =
     (if \<not> transitionActive t then (t, False)
      else
        let elapsed = currentTime - transitionStartTime t
        in if uint elapsed \<ge> uint (transitionDuration t)
           then (t\<lparr>transitionActive := False\<rparr>, False)
           else
             let progress = real_of_int (uint elapsed) / real_of_int (uint (transitionDuration t))
             in (t\<lparr>leds := map2 (\<lambda>p c. blend p c (to_uint8 (progress * 255)))
                                (prevLeds t) (leds t)\<rparr>, True))"

text \<open>
  Example: a strip of one pixel showing black, of which the state is captured; then white
  is rendered into \<open>leds\<close> and a transition of 1000 ms starts at time 0.
\<close>

definition black :: CRGB where
  "black = \<lparr>red = 0, green = 0, blue = 0\<rparr>"

definition white :: CRGB where
  "white = \<lparr>red = 255, green = 255, blue = 255\<rparr>"

definition blackStrip :: Fader where
  "blackStrip = \<lparr>leds = [black], prevLeds = [black], transitionStartTime = 0,
                  transitionDuration = 0, transitionActive = False\<rparr>"

definition fadeToWhite :: Fader where
  "fadeToWhite = startTransition ((captureCurrentState blackStrip)\<lparr>leds := [white]\<rparr>) 0 1000"

section \<open>Theorems\<close>

subsection \<open>Glow points\<close>

lemma length_addGlowPoint_scan:
  "length (fst (addGlowPoint_scan i gp p h s tgt)) = length gp"
proof (induction i gp p h s tgt rule: addGlowPoint_scan.induct)
  case (1 i gp p h s tgt)
  then show ?case
    by (subst addGlowPoint_scan.simps) simp
qed

lemma addGlowPoint_scan_full:
  "(\<And>j. i \<le> j \<Longrightarrow> j < MAX_GLOW_POINTS \<Longrightarrow> active (gp ! j)) \<Longrightarrow>
   addGlowPoint_scan i gp p h s tgt = (gp, - 1)"
proof (induction i gp p h s tgt rule: addGlowPoint_scan.induct)
  case (1 i gp p h s tgt)
  show ?case
  proof (cases "i < MAX_GLOW_POINTS")
    case True
    have a: "active (gp ! i)" using "1.prems" [of i] True by simp
    have "addGlowPoint_scan (i + 1) gp p h s tgt = (gp, - 1)"
      using "1.IH" [OF True] a "1.prems" by simp
    then show ?thesis
      using True a by (subst addGlowPoint_scan.simps) simp
  next
    case False
    then show ?thesis by (subst addGlowPoint_scan.simps) simp
  qed
qed

lemma all_active_of_count:
  assumes "activeCount gp = length gp" and "j < length gp"
  shows "active (gp ! j)"
proof -
  have "length (filter (\<lambda>g. \<not> active g) gp) = 0"
    using assms(1) sum_length_filter_compl [of active gp] by (simp add: activeCount_def)
  then have "\<forall>g \<in> set gp. active g"
    by (simp add: filter_empty_conv)
  then show ?thesis using assms(2) by simp
qed

lemma length_updateAll: "length (updateAll i gp speed rolls) = length gp"
proof (induction i gp speed rolls rule: updateAll.induct)
  case (1 i gp speed rolls)
  then show ?case
    by (subst updateAll.simps) simp
qed

lemma length_spawnPhase: "length (spawnPhase gp h brightness speed sprd d) = length gp"
  by (simp add: spawnPhase_def addGlowPoint_def length_addGlowPoint_scan Let_def)

lemma length_gentleGlow: "length (gentleGlow gp h brightness speed sprd d) = length gp"
  by (simp add: gentleGlow_def length_spawnPhase length_updateAll)

lemma length_exec: "exec gp c = Some gp' \<Longrightarrow> length gp' = length gp"
  by (cases c)
     (auto simp: length_gentleGlow addGlowPoint_def length_addGlowPoint_scan
        updateGlowPoint_def split: if_splits prod.splits)

lemma length_run: "run gp cs = Some gp' \<Longrightarrow> length gp' = length gp"
proof (induction cs arbitrary: gp)
  case Nil
  then show ?case by simp
next
  case (Cons c cs)
  then show ?case
    by (auto split: option.splits dest: length_exec)
qed

lemma activeCount_le: "activeCount gp \<le> length gp"
  by (simp add: activeCount_def)


lemma run_total:
  "length gp = MAX_GLOW_POINTS \<Longrightarrow> \<forall>c \<in> set cs. inRange c \<Longrightarrow> \<exists>gp'. run gp cs = Some gp'"
proof (induction cs arbitrary: gp)
  case Nil
  then show ?case by simp
next
  case (Cons c cs)
  have "\<exists>gp1. exec gp c = Some gp1"
    using Cons.prems by (cases c) (auto simp: updateGlowPoint_def split: prod.splits)
  then obtain gp1 where e: "exec gp c = Some gp1" by blast
  then have "length gp1 = MAX_GLOW_POINTS"
    using length_exec Cons.prems(1) by metis
  then obtain gp' where "run gp1 cs = Some gp'"
    using Cons.IH Cons.prems(2) by auto
  then show ?case using e by simp
qed

lemma addGlowPoint_full:
  assumes "length gp = MAX_GLOW_POINTS" and "activeCount gp = MAX_GLOW_POINTS"
  shows "addGlowPoint gp p h s tgt = (gp, - 1)"
  unfolding addGlowPoint_def
  by (rule addGlowPoint_scan_full) (use assms all_active_of_count [of gp] in simp)

text \<open>
  \<open>addGlowPoint\<close> takes the first slot that is not active, and returns its index.
\<close>

lemma addGlowPoint_scan_first_free:
  "k \<le> i \<Longrightarrow> i < MAX_GLOW_POINTS \<Longrightarrow> \<not> active (gp ! i) \<Longrightarrow>
   (\<And>j. k \<le> j \<Longrightarrow> j < i \<Longrightarrow> active (gp ! j)) \<Longrightarrow>
   addGlowPoint_scan k gp p h s tgt = (gp[i := newGlowPoint p h s tgt], int i)"
proof (induction k gp p h s tgt rule: addGlowPoint_scan.induct)
  case (1 k gp p h s tgt)
  have k: "k < MAX_GLOW_POINTS" using "1.prems"(1,2) by simp
  show ?case
  proof (cases "k = i")
    case True
    then show ?thesis using "1.prems"(2,3) by (subst addGlowPoint_scan.simps) simp
  next
    case False
    then have lt: "k < i" using "1.prems"(1) by simp
    then have a: "active (gp ! k)" using "1.prems"(4) [of k] by simp
    have "addGlowPoint_scan (k + 1) gp p h s tgt = (gp[i := newGlowPoint p h s tgt], int i)"
      using "1.IH" [OF k] a lt "1.prems"(2,3,4) by simp
    then show ?thesis using k a by (subst addGlowPoint_scan.simps) simp
  qed
qed

lemma addGlowPoint_first_free:
  assumes "i < MAX_GLOW_POINTS" and "\<not> active (gp ! i)" and "\<And>j. j < i \<Longrightarrow> active (gp ! j)"
  shows "addGlowPoint gp p h s tgt = (gp[i := newGlowPoint p h s tgt], int i)"
  unfolding addGlowPoint_def
  by (rule addGlowPoint_scan_first_free) (use assms in simp_all)

text \<open>
  Claim C1. The pool holds \<open>MAX_GLOW_POINTS\<close> = 5 slots. Every sequence of calls to
  \<open>gentleGlow\<close>, \<open>addGlowPoint\<close> and \<open>updateGlowPoint\<close> whose indices are in range runs to
  the end; after any such sequence the pool still has 5 slots, so at most 5 glow points are
  active. When all 5 slots are active, \<open>addGlowPoint\<close> returns -1 and leaves the pool as
  it is, and the spawn step of \<open>gentleGlow\<close> creates nothing, whatever the random draws.
\<close>

theorem glow_pool_capacity:
  assumes "length gp = MAX_GLOW_POINTS"
  shows "((\<forall>c \<in> set cs. inRange c) \<longrightarrow> (\<exists>gp'. run gp cs = Some gp')) \<and>
         (\<forall>gp'. run gp cs = Some gp' \<longrightarrow>
            length gp' = MAX_GLOW_POINTS \<and> activeCount gp' \<le> MAX_GLOW_POINTS) \<and>
         (activeCount gp = MAX_GLOW_POINTS \<longrightarrow>
            addGlowPoint gp p h s tgt = (gp, - 1) \<and>
            spawnPhase gp h' brightness speed sprd d = gp)"
proof (intro conjI allI impI)
  assume "\<forall>c \<in> set cs. inRange c"
  then show "\<exists>gp'. run gp cs = Some gp'" using run_total assms by blast
next
  fix gp' assume r: "run gp cs = Some gp'"
  then show l: "length gp' = MAX_GLOW_POINTS" using length_run assms by metis
  show "activeCount gp' \<le> MAX_GLOW_POINTS" using activeCount_le [of gp'] l by simp
next
  assume "activeCount gp = MAX_GLOW_POINTS"
  then show "addGlowPoint gp p h s tgt = (gp, - 1)"
    using addGlowPoint_full assms by blast
next
  assume "activeCount gp = MAX_GLOW_POINTS"
  then show "spawnPhase gp h' brightness speed sprd d = gp"
    by (simp add: spawnPhase_def)
qed

text \<open>
  The theorem at a pool with five active points and a sequence of three calls.
\<close>

theorem glow_pool_capacity_witness:
  "length fullPool = MAX_GLOW_POINTS \<and>
   list_all inRange [AddGlowPoint 3 4 5 6, GentleGlow 160 100 25 3 someDraws,
                     UpdateGlowPoint 2 25 0] \<and>
   (\<exists>gp'. run fullPool [AddGlowPoint 3 4 5 6, GentleGlow 160 100 25 3 someDraws,
                         UpdateGlowPoint 2 25 0] = Some gp' \<and>
           length gp' = MAX_GLOW_POINTS \<and> activeCount gp' \<le> MAX_GLOW_POINTS) \<and>
   activeCount fullPool = MAX_GLOW_POINTS \<and>
   addGlowPoint fullPool 3 4 5 6 = (fullPool, - 1) \<and>
   spawnPhase fullPool 160 100 25 3 someDraws = fullPool"
proof -
  have l: "length fullPool = MAX_GLOW_POINTS"
    by (simp add: fullPool_def MAX_GLOW_POINTS_def)
  have a: "activeCount fullPool = MAX_GLOW_POINTS"
    by (simp add: fullPool_def MAX_GLOW_POINTS_def activeCount_def newGlowPoint_def)
  have r: "list_all inRange [AddGlowPoint 3 4 5 6, GentleGlow 160 100 25 3 someDraws,
                             UpdateGlowPoint 2 25 0]"
    by (simp add: MAX_GLOW_POINTS_def)
  then have r': "\<forall>c \<in> set [AddGlowPoint 3 4 5 6, GentleGlow 160 100 25 3 someDraws,
                       UpdateGlowPoint 2 25 0]. inRange c"
    by (simp only: list_all_iff)
  show ?thesis
    using l a r r'
      glow_pool_capacity [OF l, of "[AddGlowPoint 3 4 5 6, GentleGlow 160 100 25 3 someDraws,
        UpdateGlowPoint 2 25 0]" 3 4 5 6 160 100 25 3 someDraws]
    by blast
qed


lemma uint_change_of: "uint (change_of speed) = max 1 (uint speed div 20)"
proof -
  have "uint speed < 256" using uint_bounded [of speed] by simp
  then have "max 1 (uint speed div 20) < 256" by simp
  moreover have "0 \<le> max 1 (uint speed div 20)" by simp
  ultimately show ?thesis
    unfolding change_of_def by (simp add: uint_word_of_int take_bit_int_eq_self)
qed

lemma change_of_pos: "1 \<le> uint (change_of speed)"
  by (simp add: uint_change_of)

lemma fade_step:
  fixes c ch :: u8
  assumes "\<not> c \<le> ch"
  shows "uint (c - ch) = uint c - uint ch"
  using assms uint_bounded [of c] uint_bounded [of ch]
  by (auto simp: word_le_def word_less_def uint_sub_if_size word_size)

lemma updatePoint_inactive: "\<not> active g \<Longrightarrow> updatePoint g speed roll = (g, False)"
  by (simp add: updatePoint_def)

lemma grow_value:
  fixes c ch m :: u8
  shows "uint (let n = (if 255 - uint c > uint ch then c + ch else 255) in if n > m then m else n)
         = min (uint c + uint ch) (uint m)"
proof -
  have b: "uint c < 256" "uint ch < 256" "uint m < 256" "0 \<le> uint c" "0 \<le> uint ch"
    using uint_bounded [of c] uint_bounded [of ch] uint_bounded [of m] by simp_all
  show ?thesis
    using b by (auto simp: Let_def word_le_def word_less_def uint_plus_if_size word_size min_def)
qed

lemma updatePoint_growing:
  assumes "active g" and "state g = 1"
  shows "uint (currentIntensity (fst (updatePoint g speed roll))) =
           min (uint (currentIntensity g) + uint (change_of speed)) (uint (maxIntensity g))"
    and "state (fst (updatePoint g speed roll)) =
           (if uint (currentIntensity g) + uint (change_of speed) \<ge> uint (maxIntensity g) then 0 else 1)"
    and "active (fst (updatePoint g speed roll))"
    and "maxIntensity (fst (updatePoint g speed roll)) = maxIntensity g"
    and "snd (updatePoint g speed roll)"
proof -
  let ?c = "currentIntensity g" and ?ch = "change_of speed" and ?m = "maxIntensity g"
  let ?n = "let n = (if 255 - uint ?c > uint ?ch then ?c + ?ch else 255) in if n > ?m then ?m else n"
  have v: "uint ?n = min (uint ?c + uint ?ch) (uint ?m)" by (rule grow_value)
  have u: "updatePoint g speed roll =
             (if ?n \<ge> ?m then g\<lparr>currentIntensity := ?n, state := 0\<rparr>
              else g\<lparr>currentIntensity := ?n\<rparr>, True)"
    using assms by (simp add: updatePoint_def Let_def)
  have ge: "?n \<ge> ?m \<longleftrightarrow> uint ?c + uint ?ch \<ge> uint ?m"
    using v by (simp add: word_le_def min_def)
  show "uint (currentIntensity (fst (updatePoint g speed roll))) =
           min (uint ?c + uint ?ch) (uint ?m)"
    using v by (simp add: u)
  show "state (fst (updatePoint g speed roll)) =
           (if uint ?c + uint ?ch \<ge> uint ?m then 0 else 1)"
    using ge assms(2) by (simp add: u)
  show "active (fst (updatePoint g speed roll))" using assms(1) by (simp add: u)
  show "maxIntensity (fst (updatePoint g speed roll)) = ?m" by (simp add: u)
  show "snd (updatePoint g speed roll)" by (simp add: u)
qed

lemma updatePoint_stable:
  assumes "active g" and "state g = 0"
  shows "updatePoint g speed roll = (if roll < 5 then g\<lparr>state := - 1\<rparr> else g, True)"
  using assms by (simp add: updatePoint_def Let_def)

lemma updatePoint_fading:
  assumes "active g" and "state g \<noteq> 1" and "state g \<noteq> 0"
  shows "updatePoint g speed roll =
           (if currentIntensity g \<le> change_of speed
            then (g\<lparr>state := - 1, active := False\<rparr>, False)
            else (g\<lparr>state := - 1, currentIntensity := currentIntensity g - change_of speed\<rparr>, True))"
  using assms by (cases "state g = - 1") (simp_all add: updatePoint_def Let_def)


lemma lifecycle_length: "length (lifecycle g ins) = Suc (length ins)"
  by (induction g ins rule: lifecycle.induct) simp_all

lemma lifecycle_0: "lifecycle g ins ! 0 = g"
  by (cases ins) auto

lemma lifecycle_Suc:
  "k < length ins \<Longrightarrow>
   lifecycle g ins ! Suc k =
     fst (updatePoint (lifecycle g ins ! k) (fst (ins ! k)) (snd (ins ! k)))"
proof (induction g ins arbitrary: k rule: lifecycle.induct)
  case (1 g)
  then show ?case by simp
next
  case (2 g speed roll ins)
  show ?case
  proof (cases k)
    case 0
    then show ?thesis by (simp add: lifecycle_0)
  next
    case (Suc k')
    then show ?thesis using "2.IH" [of k'] "2.prems" by simp
  qed
qed

lemma updatePoint_step:
  fixes g :: GlowPoint and speed roll :: u8
  assumes "validPoint g"
  defines "g' \<equiv> fst (updatePoint g speed roll)"
  shows "validPoint g'"
    and "maxIntensity g' = maxIntensity g"
    and "active g \<Longrightarrow> state g = 1 \<Longrightarrow> currentIntensity g \<le> currentIntensity g'"
    and "active g \<Longrightarrow> state g = 0 \<Longrightarrow> currentIntensity g' = currentIntensity g"
    and "active g \<Longrightarrow> state g = - 1 \<Longrightarrow> currentIntensity g' \<le> currentIntensity g"
    and "state g \<noteq> 1 \<Longrightarrow> state g' \<noteq> 1"
    and "\<not> active g \<Longrightarrow> g' = g"
    and "active g \<Longrightarrow> \<not> active g' \<Longrightarrow>
           state g = - 1 \<and> currentIntensity g \<le> change_of speed \<and>
           currentIntensity g' = currentIntensity g"
proof -
  consider (off) "\<not> active g" | (grow) "active g" "state g = 1"
    | (stable) "active g" "state g = 0" | (fade) "active g" "state g = - 1"
    using assms(1) by (auto simp: validPoint_def)
  then have "validPoint g' \<and> maxIntensity g' = maxIntensity g \<and>
    (active g \<longrightarrow> state g = 1 \<longrightarrow> currentIntensity g \<le> currentIntensity g') \<and>
    (active g \<longrightarrow> state g = 0 \<longrightarrow> currentIntensity g' = currentIntensity g) \<and>
    (active g \<longrightarrow> state g = - 1 \<longrightarrow> currentIntensity g' \<le> currentIntensity g) \<and>
    (state g \<noteq> 1 \<longrightarrow> state g' \<noteq> 1) \<and> (\<not> active g \<longrightarrow> g' = g) \<and>
    (active g \<longrightarrow> \<not> active g' \<longrightarrow>
       state g = - 1 \<and> currentIntensity g \<le> change_of speed \<and>
       currentIntensity g' = currentIntensity g)"
  proof cases
    case off
    then show ?thesis using assms(1) by (simp add: g'_def updatePoint_inactive)
  next
    case grow
    note G = updatePoint_growing [OF grow, of speed roll]
    have "uint (currentIntensity g) \<le> uint (maxIntensity g)"
      using assms(1) by (simp add: validPoint_def word_le_def)
    moreover have "0 \<le> uint (change_of speed)" by simp
    ultimately have "uint (currentIntensity g) \<le> uint (currentIntensity g')"
      and "uint (currentIntensity g') \<le> uint (maxIntensity g')"
      unfolding g'_def G by (simp_all add: min_def)
    then show ?thesis using grow G(2,3,4) 
      by (auto simp: validPoint_def word_le_def g'_def)
  next
    case stable
    then show ?thesis using assms(1)
      by (auto simp: g'_def updatePoint_stable validPoint_def)
  next
    case fade
    have ne: "state g \<noteq> 1" "state g \<noteq> 0" using fade by simp_all
    note F = updatePoint_fading [OF fade(1) ne, of speed roll]
    show ?thesis
    proof (cases "currentIntensity g \<le> change_of speed")
      case True
      then show ?thesis using fade assms(1) by (simp add: g'_def F validPoint_def)
    next
      case False
      have "uint (currentIntensity g - change_of speed) =
              uint (currentIntensity g) - uint (change_of speed)"
        by (rule fade_step [OF False])
      moreover have "0 \<le> uint (change_of speed)" by simp
      ultimately have "currentIntensity g - change_of speed \<le> currentIntensity g"
        by (simp add: word_le_def)
      then show ?thesis using fade assms(1) False
        by (auto simp: g'_def F validPoint_def)
    qed
  qed
  then show "validPoint g'"
    and "maxIntensity g' = maxIntensity g"
    and "active g \<Longrightarrow> state g = 1 \<Longrightarrow> currentIntensity g \<le> currentIntensity g'"
    and "active g \<Longrightarrow> state g = 0 \<Longrightarrow> currentIntensity g' = currentIntensity g"
    and "active g \<Longrightarrow> state g = - 1 \<Longrightarrow> currentIntensity g' \<le> currentIntensity g"
    and "state g \<noteq> 1 \<Longrightarrow> state g' \<noteq> 1"
    and "\<not> active g \<Longrightarrow> g' = g"
    and "active g \<Longrightarrow> \<not> active g' \<Longrightarrow>
           state g = - 1 \<and> currentIntensity g \<le> change_of speed \<and>
           currentIntensity g' = currentIntensity g"
    by blast+
qed


lemma lifecycle_valid:
  assumes "validPoint g"
  shows "k \<le> length ins \<Longrightarrow>
         validPoint (lifecycle g ins ! k) \<and> maxIntensity (lifecycle g ins ! k) = maxIntensity g"
proof (induction k)
  case 0
  then show ?case using assms by (simp add: lifecycle_0)
next
  case (Suc k)
  then have v: "validPoint (lifecycle g ins ! k)"
    and m: "maxIntensity (lifecycle g ins ! k) = maxIntensity g" and k: "k < length ins"
    by simp_all
  show ?case
    using updatePoint_step(1,2) [OF v] m by (simp add: lifecycle_Suc [OF k])
qed

lemma lifecycle_not_growing:
  assumes "validPoint g" and "state (lifecycle g ins ! i) \<noteq> 1"
  shows "i \<le> j \<Longrightarrow> j \<le> length ins \<Longrightarrow> state (lifecycle g ins ! j) \<noteq> 1"
proof (induction j)
  case 0
  then show ?case using assms(2) by simp
next
  case (Suc j)
  show ?case
  proof (cases "i = Suc j")
    case True
    then show ?thesis using assms(2) by simp
  next
    case False
    then have ij: "i \<le> j" and j: "j < length ins" using Suc.prems by simp_all
    have s: "state (lifecycle g ins ! j) \<noteq> 1" using Suc.IH ij j by simp
    have v: "validPoint (lifecycle g ins ! j)"
      using lifecycle_valid [OF assms(1), of j ins] j by simp
    show ?thesis
      using updatePoint_step(6) [OF v s] by (simp add: lifecycle_Suc [OF j])
  qed
qed

lemma lifecycle_inactive:
  assumes "\<not> active (lifecycle g ins ! i)"
  shows "i \<le> j \<Longrightarrow> j \<le> length ins \<Longrightarrow> lifecycle g ins ! j = lifecycle g ins ! i"
proof (induction j)
  case 0
  then show ?case by simp
next
  case (Suc j)
  show ?case
  proof (cases "i = Suc j")
    case True
    then show ?thesis by simp
  next
    case False
    then have ij: "i \<le> j" and j: "j < length ins" using Suc.prems by simp_all
    have e: "lifecycle g ins ! j = lifecycle g ins ! i" using Suc.IH ij j by simp
    have "updatePoint (lifecycle g ins ! j) (fst (ins ! j)) (snd (ins ! j)) =
            (lifecycle g ins ! j, False)"
      using assms e by (simp add: updatePoint_inactive)
    then show ?thesis using e by (simp add: lifecycle_Suc [OF j])
  qed
qed

lemma fading_ends:
  "state g = - 1 \<Longrightarrow> uint (currentIntensity g) < int n \<Longrightarrow> n \<le> length ins \<Longrightarrow>
   \<not> active (lifecycle g ins ! n)"
proof (induction n arbitrary: g ins)
  case 0
  then show ?case by simp
next
  case (Suc n)
  then obtain speed roll ins' where ins: "ins = (speed, roll) # ins'"
    by (cases ins) auto
  let ?g' = "fst (updatePoint g speed roll)"
  have nth: "lifecycle g ins ! Suc n = lifecycle ?g' ins' ! n" by (simp add: ins)
  have len: "n \<le> length ins'" using Suc.prems(3) ins by simp
  show ?case
  proof (cases "active g \<and> \<not> currentIntensity g \<le> change_of speed")
    case True
    then have a: "active g" and gt: "\<not> currentIntensity g \<le> change_of speed" by simp_all
    have ne: "state g \<noteq> 1" "state g \<noteq> 0" using Suc.prems(1) by simp_all
    have g': "?g' = g\<lparr>state := - 1, currentIntensity := currentIntensity g - change_of speed\<rparr>"
      using updatePoint_fading [OF a ne, of speed roll] gt by simp
    have "uint (currentIntensity ?g') = uint (currentIntensity g) - uint (change_of speed)"
      using fade_step [OF gt] by (simp add: g')
    then have "uint (currentIntensity ?g') < int n"
      using change_of_pos [of speed] Suc.prems(2) by simp
    moreover have "state ?g' = - 1" by (simp add: g')
    ultimately show ?thesis using Suc.IH [of ?g' ins'] len nth by simp
  next
    case False
    have off: "\<not> active ?g'"
    proof (cases "active g")
      case True
      have ne: "state g \<noteq> 1" "state g \<noteq> 0" using Suc.prems(1) by simp_all
      show ?thesis using updatePoint_fading [OF True ne, of speed roll] False True by simp
    next
      case False
      then show ?thesis by (simp add: updatePoint_inactive)
    qed
    have v: "\<not> active (lifecycle ?g' ins' ! 0)" using off by (simp add: lifecycle_0)
    have "lifecycle ?g' ins' ! n = lifecycle ?g' ins' ! 0"
      using lifecycle_inactive [OF v, of n] len by simp
    then have "\<not> active (lifecycle ?g' ins' ! n)" using v by simp
    then show ?thesis using nth by simp
  qed
qed


lemma lifecycle_drop:
  "k \<le> length ins \<Longrightarrow>
   lifecycle g ins ! (k + n) = lifecycle (lifecycle g ins ! k) (drop k ins) ! n"
proof (induction g ins arbitrary: k rule: lifecycle.induct)
  case (1 g)
  then show ?case by simp
next
  case (2 g speed roll ins)
  show ?case
  proof (cases k)
    case 0
    then show ?thesis by simp
  next
    case (Suc k')
    then show ?thesis using "2.IH" [of k'] "2.prems" by simp
  qed
qed

lemma valid_newGlowPoint: "validPoint (newGlowPoint p h s m)"
  by (simp add: validPoint_def newGlowPoint_def)

text \<open>
  Claim C2, as stated, fails at its end: the trace does not reach 0. A point with target 12
  updated at speed 255 (step 12) grows from 0 to 12 in one call, turns to fading on the
  call with roll 0, and the next call switches it off with the stored intensity still 12:
  the intensities are 0, 12, 12, 12, and the fading state never lowers the value.
\<close>

theorem deactivation_above_zero_counterexample:
  "steepTrace = lifecycle (newGlowPoint 7 160 3 12) steepInputs \<and>
   map currentIntensity steepTrace = [0, 12, 12, 12] \<and>
   map state steepTrace = [1, 0, - 1, - 1] \<and>
   map active steepTrace = [True, True, True, False] \<and>
   currentIntensity (steepTrace ! 3) \<noteq> 0"
  by code_simp

text \<open>
  Claim C2, amended. \<open>tr\<close> is the trace of a slot from its spawn through any sequence of
  \<open>updateGlowPoint\<close> calls, with any speeds and any random outcomes. The intensity starts at
  0 in the growing state; it never exceeds the target \<open>m\<close>, which never changes; it does
  not decrease over a call made in the growing state, does not change over a call made in
  the stable state, and does not increase over a call made in the fading state; once the
  state is not growing it is never growing again. The point is deactivated only by a call
  made in the fading state, when the intensity is at most the step; that call leaves the
  stored intensity as it is (it is not set to 0), and no later call changes the slot. A
  fading point whose intensity is below \<open>n\<close> is inactive after \<open>n\<close> more calls.
\<close>

theorem glow_point_intensity_trace:
  assumes "tr = lifecycle (newGlowPoint p h s m) ins"
  shows
   "currentIntensity (tr ! 0) = 0 \<and> state (tr ! 0) = 1 \<and>
    (\<forall>k \<le> length ins. currentIntensity (tr ! k) \<le> m \<and> maxIntensity (tr ! k) = m) \<and>
    (\<forall>k < length ins. active (tr ! k) \<and> state (tr ! k) = 1 \<longrightarrow>
        currentIntensity (tr ! k) \<le> currentIntensity (tr ! Suc k)) \<and>
    (\<forall>k < length ins. active (tr ! k) \<and> state (tr ! k) = 0 \<longrightarrow>
        currentIntensity (tr ! Suc k) = currentIntensity (tr ! k)) \<and>
    (\<forall>k < length ins. active (tr ! k) \<and> state (tr ! k) = - 1 \<longrightarrow>
        currentIntensity (tr ! Suc k) \<le> currentIntensity (tr ! k)) \<and>
    (\<forall>i j. i \<le> j \<and> j \<le> length ins \<and> state (tr ! i) \<noteq> 1 \<longrightarrow> state (tr ! j) \<noteq> 1) \<and>
    (\<forall>k < length ins. active (tr ! k) \<and> \<not> active (tr ! Suc k) \<longrightarrow>
        state (tr ! k) = - 1 \<and> currentIntensity (tr ! k) \<le> change_of (fst (ins ! k)) \<and>
        currentIntensity (tr ! Suc k) = currentIntensity (tr ! k)) \<and>
    (\<forall>k < length ins. \<not> active (tr ! k) \<longrightarrow> tr ! Suc k = tr ! k) \<and>
    (\<forall>k n. state (tr ! k) = - 1 \<and> k + n \<le> length ins \<and>
        uint (currentIntensity (tr ! k)) < int n \<longrightarrow> \<not> active (tr ! (k + n)))"
proof -
  let ?g = "newGlowPoint p h s m"
  note v0 = valid_newGlowPoint [of p h s m]
  have V: "\<And>k. k \<le> length ins \<Longrightarrow> validPoint (tr ! k) \<and> maxIntensity (tr ! k) = m"
    using lifecycle_valid [OF v0] by (simp add: assms newGlowPoint_def)
  have S: "\<And>k. k < length ins \<Longrightarrow>
             tr ! Suc k = fst (updatePoint (tr ! k) (fst (ins ! k)) (snd (ins ! k)))"
    by (simp add: assms lifecycle_Suc)
  have c1: "currentIntensity (tr ! 0) = 0 \<and> state (tr ! 0) = 1"
    by (simp add: assms lifecycle_0 newGlowPoint_def)
  have c2: "\<forall>k \<le> length ins. currentIntensity (tr ! k) \<le> m \<and> maxIntensity (tr ! k) = m"
    using V by (auto simp: validPoint_def)
  have c3: "\<forall>k < length ins. active (tr ! k) \<and> state (tr ! k) = 1 \<longrightarrow>
        currentIntensity (tr ! k) \<le> currentIntensity (tr ! Suc k)"
    using V S updatePoint_step(3) by (metis less_imp_le_nat)
  have c4: "\<forall>k < length ins. active (tr ! k) \<and> state (tr ! k) = 0 \<longrightarrow>
        currentIntensity (tr ! Suc k) = currentIntensity (tr ! k)"
    using V S updatePoint_step(4) by (metis less_imp_le_nat)
  have c5: "\<forall>k < length ins. active (tr ! k) \<and> state (tr ! k) = - 1 \<longrightarrow>
        currentIntensity (tr ! Suc k) \<le> currentIntensity (tr ! k)"
    using V S updatePoint_step(5) by (metis less_imp_le_nat)
  have c6: "\<forall>i j. i \<le> j \<and> j \<le> length ins \<and> state (tr ! i) \<noteq> 1 \<longrightarrow> state (tr ! j) \<noteq> 1"
    using lifecycle_not_growing [OF v0] unfolding assms by blast
  have c7: "\<forall>k < length ins. active (tr ! k) \<and> \<not> active (tr ! Suc k) \<longrightarrow>
        state (tr ! k) = - 1 \<and> currentIntensity (tr ! k) \<le> change_of (fst (ins ! k)) \<and>
        currentIntensity (tr ! Suc k) = currentIntensity (tr ! k)"
  proof (intro allI impI)
    fix k assume k: "k < length ins" and a: "active (tr ! k) \<and> \<not> active (tr ! Suc k)"
    have v: "validPoint (tr ! k)" using V k by simp
    show "state (tr ! k) = - 1 \<and> currentIntensity (tr ! k) \<le> change_of (fst (ins ! k)) \<and>
        currentIntensity (tr ! Suc k) = currentIntensity (tr ! k)"
      using updatePoint_step(8) [OF v, of "fst (ins ! k)" "snd (ins ! k)"] a S [OF k]
      by simp
  qed
  have c8: "\<forall>k < length ins. \<not> active (tr ! k) \<longrightarrow> tr ! Suc k = tr ! k"
  proof (intro allI impI)
    fix k assume k: "k < length ins" and a: "\<not> active (tr ! k)"
    have v: "validPoint (tr ! k)" using V k by simp
    show "tr ! Suc k = tr ! k"
      using updatePoint_step(7) [OF v a, of "fst (ins ! k)" "snd (ins ! k)"] S [OF k]
      by simp
  qed
  have c9: "\<forall>k n. state (tr ! k) = - 1 \<and> k + n \<le> length ins \<and>
        uint (currentIntensity (tr ! k)) < int n \<longrightarrow> \<not> active (tr ! (k + n))"
  proof (intro allI impI)
    fix k n
    assume h: "state (tr ! k) = - 1 \<and> k + n \<le> length ins \<and>
        uint (currentIntensity (tr ! k)) < int n"
    then have k: "k \<le> length ins" by simp
    have "tr ! (k + n) = lifecycle (tr ! k) (drop k ins) ! n"
      unfolding assms by (rule lifecycle_drop [OF k])
    moreover have "\<not> active (lifecycle (tr ! k) (drop k ins) ! n)"
      using h by (intro fading_ends) auto
    ultimately show "\<not> active (tr ! (k + n))" by simp
  qed
  show ?thesis using c1 c2 c3 c4 c5 c6 c7 c8 c9 by blast
qed


text \<open>
  The theorem at a point with target 2 and six calls at speed 20 (step 1) with roll 0: the
  intensities are 0, 1, 2, 2, 1 and the point is switched off by the fifth call, which
  leaves the intensity at 1; the sixth call changes nothing.
\<close>

theorem glow_point_intensity_trace_witness:
  "demoTrace = lifecycle (newGlowPoint 7 160 3 2) demoInputs \<and>
   (1 < length demoInputs \<and> active (demoTrace ! 1) \<and> state (demoTrace ! 1) = 1) \<and>
   currentIntensity (demoTrace ! 1) \<le> currentIntensity (demoTrace ! Suc 1) \<and>
   (2 < length demoInputs \<and> active (demoTrace ! 2) \<and> state (demoTrace ! 2) = 0) \<and>
   currentIntensity (demoTrace ! Suc 2) = currentIntensity (demoTrace ! 2) \<and>
   (3 < length demoInputs \<and> active (demoTrace ! 3) \<and> state (demoTrace ! 3) = - 1) \<and>
   currentIntensity (demoTrace ! Suc 3) \<le> currentIntensity (demoTrace ! 3) \<and>
   ((2::nat) \<le> 6 \<and> 6 \<le> length demoInputs \<and> state (demoTrace ! 2) \<noteq> 1) \<and>
   state (demoTrace ! 6) \<noteq> 1 \<and>
   (4 < length demoInputs \<and> active (demoTrace ! 4) \<and> \<not> active (demoTrace ! Suc 4)) \<and>
   currentIntensity (demoTrace ! 4) \<le> change_of (fst (demoInputs ! 4)) \<and>
   currentIntensity (demoTrace ! Suc 4) = currentIntensity (demoTrace ! 4) \<and>
   (5 < length demoInputs \<and> \<not> active (demoTrace ! 5)) \<and>
   demoTrace ! Suc 5 = demoTrace ! 5 \<and>
   (3 + 3 \<le> length demoInputs \<and> uint (currentIntensity (demoTrace ! 3)) < int 3) \<and>
   \<not> active (demoTrace ! (3 + 3))"
proof -
  have e: "demoTrace = lifecycle (newGlowPoint 7 160 3 2) demoInputs"
    by (simp add: demoTrace_def)
  have h1: "1 < length demoInputs \<and> active (demoTrace ! 1) \<and> state (demoTrace ! 1) = 1"
    by code_simp
  have h2: "2 < length demoInputs \<and> active (demoTrace ! 2) \<and> state (demoTrace ! 2) = 0"
    by code_simp
  have h3: "3 < length demoInputs \<and> active (demoTrace ! 3) \<and> state (demoTrace ! 3) = - 1"
    by code_simp
  have h4: "(2::nat) \<le> 6 \<and> 6 \<le> length demoInputs \<and> state (demoTrace ! 2) \<noteq> 1"
    by code_simp
  have h5: "4 < length demoInputs \<and> active (demoTrace ! 4) \<and> \<not> active (demoTrace ! Suc 4)"
    by code_simp
  have h6: "3 + 3 \<le> length demoInputs \<and> uint (currentIntensity (demoTrace ! 3)) < int 3"
    by code_simp
  have h7: "5 < length demoInputs \<and> \<not> active (demoTrace ! 5)"
    by code_simp
  note T = glow_point_intensity_trace [OF e]
  show ?thesis
    using e h1 h2 h3 h4 h5 h6 h7 T by blast
qed

text \<open>
  Claim C4, as stated, fails on the fading step: a fading point of intensity 100 updated
  at speed 40 (step 2) has intensity 98 afterwards, not 100 - 2 div 2 = 99.
\<close>

theorem fading_half_step_counterexample:
  "active fadingPoint \<and> state fadingPoint = - 1 \<and>
   uint (change_of 40) = 2 \<and>
   uint (currentIntensity (fst (updatePoint fadingPoint 40 0))) = 98 \<and>
   uint (currentIntensity (fst (updatePoint fadingPoint 40 0))) \<noteq>
     uint (currentIntensity fadingPoint) - uint (change_of 40) div 2"
  by code_simp

text \<open>
  Claim C4, amended. The step is \<open>max(1, speed / 20)\<close>. One call on an active growing
  point adds the step to the intensity, clamped to the point's own target, and the point
  becomes stable exactly when the target is reached. One call on an active fading point
  whose intensity exceeds the step subtracts the whole step (the same step as growth, not
  half of it) and the point stays fading and active; one call on a fading point whose
  intensity is at most the step deactivates it (the call returns false), which marks its
  slot as free for \<open>addGlowPoint\<close>.
\<close>

theorem glow_point_step:
  assumes "active g"
  shows "uint (change_of speed) = max 1 (uint speed div 20) \<and>
    (state g = 1 \<longrightarrow>
       uint (currentIntensity (fst (updatePoint g speed roll))) =
         min (uint (currentIntensity g) + uint (change_of speed)) (uint (maxIntensity g)) \<and>
       state (fst (updatePoint g speed roll)) =
         (if uint (currentIntensity g) + uint (change_of speed) \<ge> uint (maxIntensity g)
          then 0 else 1) \<and>
       active (fst (updatePoint g speed roll))) \<and>
    (state g = - 1 \<and> \<not> currentIntensity g \<le> change_of speed \<longrightarrow>
       uint (currentIntensity (fst (updatePoint g speed roll))) =
         uint (currentIntensity g) - uint (change_of speed) \<and>
       state (fst (updatePoint g speed roll)) = - 1 \<and>
       active (fst (updatePoint g speed roll)) \<and> snd (updatePoint g speed roll)) \<and>
    (state g = - 1 \<and> currentIntensity g \<le> change_of speed \<longrightarrow>
       \<not> active (fst (updatePoint g speed roll)) \<and> \<not> snd (updatePoint g speed roll))"
proof -
  have f: "state g = - 1 \<Longrightarrow> updatePoint g speed roll =
           (if currentIntensity g \<le> change_of speed
            then (g\<lparr>state := - 1, active := False\<rparr>, False)
            else (g\<lparr>state := - 1, currentIntensity := currentIntensity g - change_of speed\<rparr>, True))"
    using updatePoint_fading [OF assms, of speed roll] by simp
  show ?thesis
    using assms updatePoint_growing [OF assms, of speed roll] f fade_step [of "currentIntensity g" "change_of speed"]
    by (auto simp: uint_change_of)
qed

text \<open>
  The theorem at a growing point one below its target, at a fading point of intensity 100
  and at a fading point of intensity 2, all at speed 40.
\<close>

theorem glow_point_step_witness:
  "active growingPoint \<and> state growingPoint = 1 \<and>
   uint (currentIntensity (fst (updatePoint growingPoint 40 0))) =
     min (uint (currentIntensity growingPoint) + uint (change_of 40)) (uint (maxIntensity growingPoint)) \<and>
   uint (currentIntensity (fst (updatePoint growingPoint 40 0))) = 200 \<and>
   state (fst (updatePoint growingPoint 40 0)) = 0 \<and>
   active fadingPoint \<and> state fadingPoint = - 1 \<and> \<not> currentIntensity fadingPoint \<le> change_of 40 \<and>
   uint (currentIntensity (fst (updatePoint fadingPoint 40 0))) =
     uint (currentIntensity fadingPoint) - uint (change_of 40) \<and>
   active (fadingPoint\<lparr>currentIntensity := 2\<rparr>) \<and> 
   state (fadingPoint\<lparr>currentIntensity := 2\<rparr>) = - 1 \<and>
   currentIntensity (fadingPoint\<lparr>currentIntensity := 2\<rparr>) \<le> change_of 40 \<and>
   \<not> active (fst (updatePoint (fadingPoint\<lparr>currentIntensity := 2\<rparr>) 40 0))"
proof -
  have h1: "active growingPoint \<and> state growingPoint = 1 \<and>
      uint (currentIntensity (fst (updatePoint growingPoint 40 0))) = 200 \<and>
      state (fst (updatePoint growingPoint 40 0)) = 0" by code_simp
  have h2: "active fadingPoint \<and> state fadingPoint = - 1 \<and>
     \<not> currentIntensity fadingPoint \<le> change_of 40" by code_simp
  have h3: "active (fadingPoint\<lparr>currentIntensity := 2\<rparr>) \<and> 
   state (fadingPoint\<lparr>currentIntensity := 2\<rparr>) = - 1 \<and>
   currentIntensity (fadingPoint\<lparr>currentIntensity := 2\<rparr>) \<le> change_of 40" by code_simp
  show ?thesis
    using h1 h2 h3 glow_point_step [of growingPoint 40 0] glow_point_step [of fadingPoint 40 0]
      glow_point_step [of "fadingPoint\<lparr>currentIntensity := 2\<rparr>" 40 0]
    by blast
qed

text \<open>
  Claim C10. There is a call of \<open>gentleGlow\<close> on a pool with five free slots, with a
  brightness below 20 and random outcomes in their ranges, that spawns a glow point whose
  target intensity is the difference \<open>brightness - intensityVar\<close> reduced modulo 256 and
  exceeds the brightness asked for (brightness 10, jitter 15: target 251).
\<close>

theorem gentleGlow_target_wraps:
  "\<exists>gp h brightness speed sprd d g.
     length gp = MAX_GLOW_POINTS \<and> activeCount gp = 0 \<and>
     brightness < 20 \<and> hueVar d < 10 \<and> spreadVar d < 2 \<and> intensityVar d < 20 \<and>
     g = gentleGlow gp h brightness speed sprd d ! 0 \<and>
     active g \<and> state g = 1 \<and> currentIntensity g = 0 \<and>
     activeCount (gentleGlow gp h brightness speed sprd d) = 1 \<and>
     uint (maxIntensity g) = (uint brightness - uint (intensityVar d)) mod 256 \<and>
     maxIntensity g > brightness"
proof -
  have "length emptyPool = MAX_GLOW_POINTS \<and> activeCount emptyPool = 0 \<and>
     (10 :: u8) < 20 \<and> hueVar someDraws < 10 \<and> spreadVar someDraws < 2 \<and>
     intensityVar someDraws < 20 \<and>
     active (gentleGlow emptyPool 160 10 25 3 someDraws ! 0) \<and>
     state (gentleGlow emptyPool 160 10 25 3 someDraws ! 0) = 1 \<and>
     currentIntensity (gentleGlow emptyPool 160 10 25 3 someDraws ! 0) = 0 \<and>
     activeCount (gentleGlow emptyPool 160 10 25 3 someDraws) = 1 \<and>
     uint (maxIntensity (gentleGlow emptyPool 160 10 25 3 someDraws ! 0)) =
       (uint (10 :: u8) - uint (intensityVar someDraws)) mod 256 \<and>
     maxIntensity (gentleGlow emptyPool 160 10 25 3 someDraws ! 0) > 10"
    by code_simp
  then show ?thesis by blast
qed

subsection \<open>Signal conditioning\<close>

lemma floor_log_scaled:
  fixes m :: int and s k :: nat
  assumes "0 < m" and "10 ^ k \<le> m ^ s" and "m ^ s < 10 ^ (k + 1)"
  shows "\<lfloor>log 10 (real_of_int m) * real s\<rfloor> = int k"
proof -
  have m: "0 < real_of_int m" using assms(1) by simp
  have e: "log 10 (real_of_int m) * real s = log 10 (real_of_int m ^ s)"
    using m by (simp add: log_nat_power)
  have p: "0 < real_of_int m ^ s" using m by simp
  have a: "(10::real) ^ k \<le> real_of_int m ^ s"
  proof -
    have "real_of_int (10 ^ k) \<le> real_of_int (m ^ s)" using assms(2) by linarith
    then show ?thesis by simp
  qed
  have b: "real_of_int m ^ s < (10::real) ^ (k + 1)"
  proof -
    have "real_of_int (m ^ s) < real_of_int (10 ^ (k + 1))" using assms(3) by linarith
    then show ?thesis by simp
  qed
  have pk: "(10::real) powr real k = 10 ^ k" by (rule powr_realpow) simp
  have pk1: "(10::real) powr real (k + 1) = 10 ^ (k + 1)" by (rule powr_realpow) simp
  have "real k \<le> log 10 (real_of_int m ^ s)"
    using a p pk by (subst le_log_iff) simp_all
  moreover have "log 10 (real_of_int m ^ s) < real (k + 1)"
    using b p pk1 by (subst log_less_iff) simp_all
  ultimately have "real_of_int (int k) \<le> log 10 (real_of_int m ^ s) \<and>
      log 10 (real_of_int m ^ s) < real_of_int (int k) + 1"
    by simp
  then show ?thesis
    unfolding e by (subst floor_eq_iff) simp
qed

lemma logScaled_floor:
  fixes a :: int and s k :: nat
  assumes "0 \<le> a" and "10 ^ k \<le> (a + 1) ^ s" and "(a + 1) ^ s < 10 ^ (k + 1)"
  shows "\<lfloor>logScaled a (int s)\<rfloor> = int k"
proof -
  have "\<lfloor>log 10 (real_of_int (a + 1)) * real s\<rfloor> = int k"
    using assms by (intro floor_log_scaled) simp_all
  then show ?thesis by (simp add: logScaled_def add.commute)
qed

lemma logScaled_nonneg: "0 \<le> a \<Longrightarrow> 0 \<le> s \<Longrightarrow> 0 \<le> logScaled a s"
  by (simp add: logScaled_def zero_le_log_cancel_iff)

lemma logScaled_mono: "0 \<le> a \<Longrightarrow> a \<le> b \<Longrightarrow> 0 \<le> s \<Longrightarrow> logScaled a s \<le> logScaled b s"
  by (simp add: logScaled_def log_le_cancel_iff mult_right_mono)

lemma logIntensity_floor:
  assumes "\<lfloor>logScaled \<bar>sint v\<bar> (uint scale)\<rfloor> = k" and "0 \<le> k"
  shows "logIntensity v scale = word_of_int (constrain (k mod 256) 0 255)"
proof -
  have "0 \<le> logScaled \<bar>sint v\<bar> (uint scale)" by (rule logScaled_nonneg) simp_all
  then have "truncate_real (logScaled \<bar>sint v\<bar> (uint scale)) = k"
    using assms(1) by (simp add: truncate_real_def)
  then show ?thesis
    by (simp add: logIntensity_def to_uint8_def INTENSITY_MAX_def uint_word_of_int take_bit_eq_mod)
qed

lemma logIntensity_200: "logIntensity (- 200) 60 = 138"
proof -
  have "\<lfloor>logScaled 200 (int 60)\<rfloor> = int 138"
    by (rule logScaled_floor) simp_all
  then have "\<lfloor>logScaled \<bar>sint (- 200 :: 16 word)\<bar> (uint (60 :: u8))\<rfloor> = 138" by simp
  from logIntensity_floor [OF this] show ?thesis by (simp add: constrain_def)
qed

lemma polls_append:
  "polls mv sc ch (xs @ ys) = polls mv sc (polls mv sc ch xs) ys"
  by (induction mv sc ch xs rule: polls.induct) simp_all

lemma uint_count_up:
  fixes c :: u8
  shows "uint (countUp c) = min (uint c + 1) 255"
proof -
  have "0 \<le> min (uint c + 1) 255" "min (uint c + 1) 255 < 256" by simp_all
  then show ?thesis by (simp add: countUp_def uint_word_of_int take_bit_int_eq_self)
qed

lemma poll_qualifying:
  assumes "qualifies mv v f"
  shows "uint (detectionCount (pollChannel mv sc ch v f)) = min (uint (detectionCount ch) + 1) 255"
    and "nonDetectionCount (pollChannel mv sc ch v f) = 0"
    and "detected (pollChannel mv sc ch v f) =
           (if min (uint (detectionCount ch) + 1) 255 \<ge> 3 then True else detected ch)"
    and "intensity (pollChannel mv sc ch v f) =
           (if min (uint (detectionCount ch) + 1) 255 \<ge> 3 then logIntensity v sc else intensity ch)"
  using assms uint_count_up [of "detectionCount ch"]
  by (simp_all add: pollChannel_def Let_def DEBOUNCE_COUNT_def)

lemma poll_not_qualifying:
  assumes "\<not> qualifies mv v f"
  shows "uint (nonDetectionCount (pollChannel mv sc ch v f)) =
           min (uint (nonDetectionCount ch) + 1) 255"
    and "detectionCount (pollChannel mv sc ch v f) = 0"
    and "detected (pollChannel mv sc ch v f) =
           (if min (uint (nonDetectionCount ch) + 1) 255 \<ge> 3 then False else detected ch)"
    and "intensity (pollChannel mv sc ch v f) =
           (if min (uint (nonDetectionCount ch) + 1) 255 \<ge> 3 then 0 else intensity ch)"
  using assms uint_count_up [of "nonDetectionCount ch"]
  by (simp_all add: pollChannel_def Let_def DEBOUNCE_COUNT_def)

lemma polls_qualifying:
  assumes "\<forall>(v, f) \<in> set qs. qualifies mv v f"
  shows "uint (detectionCount (polls mv sc ch qs)) =
           min (uint (detectionCount ch) + int (length qs)) 255 \<and>
         detected (polls mv sc ch qs) =
           (if qs \<noteq> [] \<and> uint (detectionCount ch) + int (length qs) \<ge> 3 then True
            else detected ch) \<and>
         (qs \<noteq> [] \<longrightarrow> nonDetectionCount (polls mv sc ch qs) = 0) \<and>
         (qs \<noteq> [] \<and> uint (detectionCount ch) + int (length qs) \<ge> 3 \<longrightarrow>
            intensity (polls mv sc ch qs) = logIntensity (fst (last qs)) sc)"
  using assms
proof (induction qs rule: rev_induct)
  case Nil
  have "uint (detectionCount ch) < 256" using uint_bounded [of "detectionCount ch"] by simp
  then show ?case by simp
next
  case (snoc x qs)
  obtain v f where x: "x = (v, f)" by (cases x)
  have q: "qualifies mv v f" using snoc.prems x by simp
  have IH: "uint (detectionCount (polls mv sc ch qs)) =
           min (uint (detectionCount ch) + int (length qs)) 255"
       "detected (polls mv sc ch qs) =
           (if qs \<noteq> [] \<and> uint (detectionCount ch) + int (length qs) \<ge> 3 then True
            else detected ch)"
    using snoc by simp_all
  have b: "0 \<le> uint (detectionCount ch)" by simp
  show ?case
    using poll_qualifying [OF q, of sc "polls mv sc ch qs"] IH b
    by (auto simp: polls_append x min_def)
qed

lemma polls_not_qualifying:
  assumes "\<forall>(v, f) \<in> set qs. \<not> qualifies mv v f"
  shows "uint (nonDetectionCount (polls mv sc ch qs)) =
           min (uint (nonDetectionCount ch) + int (length qs)) 255 \<and>
         detected (polls mv sc ch qs) =
           (if qs \<noteq> [] \<and> uint (nonDetectionCount ch) + int (length qs) \<ge> 3 then False
            else detected ch) \<and>
         (qs \<noteq> [] \<longrightarrow> detectionCount (polls mv sc ch qs) = 0) \<and>
         (qs \<noteq> [] \<and> uint (nonDetectionCount ch) + int (length qs) \<ge> 3 \<longrightarrow>
            intensity (polls mv sc ch qs) = 0)"
  using assms
proof (induction qs rule: rev_induct)
  case Nil
  have "uint (nonDetectionCount ch) < 256"
    using uint_bounded [of "nonDetectionCount ch"] by simp
  then show ?case by simp
next
  case (snoc x qs)
  obtain v f where x: "x = (v, f)" by (cases x)
  have q: "\<not> qualifies mv v f" using snoc.prems x by simp
  have IH: "uint (nonDetectionCount (polls mv sc ch qs)) =
           min (uint (nonDetectionCount ch) + int (length qs)) 255"
       "detected (polls mv sc ch qs) =
           (if qs \<noteq> [] \<and> uint (nonDetectionCount ch) + int (length qs) \<ge> 3 then False
            else detected ch)"
    using snoc by simp_all
  have b: "0 \<le> uint (nonDetectionCount ch)" by simp
  show ?case
    using poll_not_qualifying [OF q, of sc "polls mv sc ch qs"] IH b
    by (auto simp: polls_append x min_def)
qed

lemma Ball_of_list_all:
  "list_all (\<lambda>(v, f). P v f) qs \<Longrightarrow> \<forall>(v, f) \<in> set qs. P v f"
  by (simp add: list_all_iff)

text \<open>
  Claim C5. A poll qualifies when the absolute value of the reading exceeds the channel's
  floor and the hardware flag is set. From every channel state (any counters, any flag),
  \<open>DEBOUNCE_COUNT\<close> or more consecutive qualifying polls leave \<open>detected\<close> true, and
  \<open>DEBOUNCE_COUNT\<close> or more consecutive polls that do not qualify leave \<open>detected\<close> false
  and the intensity 0. A run of fewer than \<open>DEBOUNCE_COUNT\<close> polls of one kind leaves
  \<open>detected\<close> as it was at the start of the run; a run starts where the counter of its
  kind is 0, which is the state at start-up and the state after any poll of the other
  kind (the last two conjuncts).
\<close>

theorem debounce:
  "(list_all (\<lambda>(v, f). qualifies mv v f) qs \<and> int (length qs) \<ge> DEBOUNCE_COUNT \<longrightarrow>
      detected (polls mv sc ch qs)) \<and>
   (list_all (\<lambda>(v, f). \<not> qualifies mv v f) qs \<and> int (length qs) \<ge> DEBOUNCE_COUNT \<longrightarrow>
      \<not> detected (polls mv sc ch qs) \<and> intensity (polls mv sc ch qs) = 0) \<and>
   (list_all (\<lambda>(v, f). qualifies mv v f) qs \<and> int (length qs) < DEBOUNCE_COUNT \<and>
      detectionCount ch = 0 \<longrightarrow>
      detected (polls mv sc ch qs) = detected ch) \<and>
   (list_all (\<lambda>(v, f). \<not> qualifies mv v f) qs \<and> int (length qs) < DEBOUNCE_COUNT \<and>
      nonDetectionCount ch = 0 \<longrightarrow>
      detected (polls mv sc ch qs) = detected ch) \<and>
   (\<not> qualifies mv v0 f0 \<and> list_all (\<lambda>(v, f). qualifies mv v f) qs \<and>
      int (length qs) < DEBOUNCE_COUNT \<longrightarrow>
      detected (polls mv sc ch ((v0, f0) # qs)) = detected (pollChannel mv sc ch v0 f0)) \<and>
   (qualifies mv v0 f0 \<and> list_all (\<lambda>(v, f). \<not> qualifies mv v f) qs \<and>
      int (length qs) < DEBOUNCE_COUNT \<longrightarrow>
      detected (polls mv sc ch ((v0, f0) # qs)) = detected (pollChannel mv sc ch v0 f0))"
proof -
  have b: "0 \<le> uint (detectionCount ch)" "0 \<le> uint (nonDetectionCount ch)" by simp_all
  have Q: "list_all (\<lambda>(v, f). qualifies mv v f) qs \<Longrightarrow>
        detected (polls mv sc c qs) =
           (if qs \<noteq> [] \<and> uint (detectionCount c) + int (length qs) \<ge> 3 then True
            else detected c)" for c
    using polls_qualifying [OF Ball_of_list_all, of mv qs sc c] by simp
  have N: "list_all (\<lambda>(v, f). \<not> qualifies mv v f) qs \<Longrightarrow>
        detected (polls mv sc c qs) =
           (if qs \<noteq> [] \<and> uint (nonDetectionCount c) + int (length qs) \<ge> 3 then False
            else detected c) \<and>
        (qs \<noteq> [] \<and> uint (nonDetectionCount c) + int (length qs) \<ge> 3 \<longrightarrow>
            intensity (polls mv sc c qs) = 0)" for c
    using polls_not_qualifying [OF Ball_of_list_all, of mv qs sc c] by simp
  have c1: "list_all (\<lambda>(v, f). qualifies mv v f) qs \<and> int (length qs) \<ge> DEBOUNCE_COUNT \<longrightarrow>
      detected (polls mv sc ch qs)"
  proof
    assume h: "list_all (\<lambda>(v, f). qualifies mv v f) qs \<and> int (length qs) \<ge> DEBOUNCE_COUNT"
    then have l: "int (length qs) \<ge> 3" unfolding DEBOUNCE_COUNT_def by (rule conjunct2)
    then have "qs \<noteq> []" by auto
    moreover have "uint (detectionCount ch) + int (length qs) \<ge> 3" using l b by linarith
    ultimately have "qs \<noteq> [] \<and> uint (detectionCount ch) + int (length qs) \<ge> 3" by simp
    then show "detected (polls mv sc ch qs)" using Q [of ch] h by simp
  qed
  have c2: "list_all (\<lambda>(v, f). \<not> qualifies mv v f) qs \<and> int (length qs) \<ge> DEBOUNCE_COUNT \<longrightarrow>
      \<not> detected (polls mv sc ch qs) \<and> intensity (polls mv sc ch qs) = 0"
  proof
    assume h: "list_all (\<lambda>(v, f). \<not> qualifies mv v f) qs \<and> int (length qs) \<ge> DEBOUNCE_COUNT"
    then have l: "int (length qs) \<ge> 3" unfolding DEBOUNCE_COUNT_def by (rule conjunct2)
    then have "qs \<noteq> []" by auto
    moreover have "uint (nonDetectionCount ch) + int (length qs) \<ge> 3" using l b by linarith
    ultimately have "qs \<noteq> [] \<and> uint (nonDetectionCount ch) + int (length qs) \<ge> 3" by simp
    then show "\<not> detected (polls mv sc ch qs) \<and> intensity (polls mv sc ch qs) = 0"
      using N [of ch] h by simp
  qed
  have c3: "list_all (\<lambda>(v, f). qualifies mv v f) qs \<and> int (length qs) < DEBOUNCE_COUNT \<and>
      detectionCount ch = 0 \<longrightarrow> detected (polls mv sc ch qs) = detected ch"
    using Q [of ch] by (auto simp: DEBOUNCE_COUNT_def)
  have c4: "list_all (\<lambda>(v, f). \<not> qualifies mv v f) qs \<and> int (length qs) < DEBOUNCE_COUNT \<and>
      nonDetectionCount ch = 0 \<longrightarrow> detected (polls mv sc ch qs) = detected ch"
    using N [of ch] by (auto simp: DEBOUNCE_COUNT_def)
  have c5: "\<not> qualifies mv v0 f0 \<and> list_all (\<lambda>(v, f). qualifies mv v f) qs \<and>
      int (length qs) < DEBOUNCE_COUNT \<longrightarrow>
      detected (polls mv sc ch ((v0, f0) # qs)) = detected (pollChannel mv sc ch v0 f0)"
    using Q [of "pollChannel mv sc ch v0 f0"] poll_not_qualifying(2) [of mv v0 f0 sc ch]
    by (auto simp: DEBOUNCE_COUNT_def)
  have c6: "qualifies mv v0 f0 \<and> list_all (\<lambda>(v, f). \<not> qualifies mv v f) qs \<and>
      int (length qs) < DEBOUNCE_COUNT \<longrightarrow>
      detected (polls mv sc ch ((v0, f0) # qs)) = detected (pollChannel mv sc ch v0 f0)"
    using N [of "pollChannel mv sc ch v0 f0"] poll_qualifying(2) [of mv v0 f0 sc ch]
    by (auto simp: DEBOUNCE_COUNT_def)
  show ?thesis using c1 c2 c3 c4 c5 c6 by blast
qed

text \<open>
  The theorem at floor 70 and scale 60: three and two qualifying polls on a channel that
  detects nothing, three and two polls that do not qualify on a channel that detects, and
  runs of two after a poll of the other kind.
\<close>

theorem debounce_witness:
  "(list_all (\<lambda>(v, f). qualifies 70 v f) [(- 200, True), (300, True), (- 71, True)] \<and>
    int (length [(- 200 :: 16 word, True), (300, True), (- 71, True)]) \<ge> DEBOUNCE_COUNT) \<and>
   detected (polls 70 60 quietChannel [(- 200, True), (300, True), (- 71, True)]) \<and>
   (list_all (\<lambda>(v, f). \<not> qualifies 70 v f) [(70, True), (- 200, False), (0, False)] \<and>
    int (length [(70 :: 16 word, True), (- 200, False), (0, False)]) \<ge> DEBOUNCE_COUNT) \<and>
   \<not> detected (polls 70 60 busyChannel [(70, True), (- 200, False), (0, False)]) \<and>
   intensity (polls 70 60 busyChannel [(70, True), (- 200, False), (0, False)]) = 0 \<and>
   (list_all (\<lambda>(v, f). qualifies 70 v f) [(- 200, True), (300, True)] \<and>
    int (length [(- 200 :: 16 word, True), (300, True)]) < DEBOUNCE_COUNT \<and>
    detectionCount quietChannel = 0) \<and>
   detected (polls 70 60 quietChannel [(- 200, True), (300, True)]) = detected quietChannel \<and>
   (list_all (\<lambda>(v, f). \<not> qualifies 70 v f) [(70, True), (- 200, False)] \<and>
    int (length [(70 :: 16 word, True), (- 200, False)]) < DEBOUNCE_COUNT \<and>
    nonDetectionCount busyChannel = 0) \<and>
   detected (polls 70 60 busyChannel [(70, True), (- 200, False)]) = detected busyChannel \<and>
   \<not> qualifies 70 12 True \<and>
   detected (polls 70 60 busyChannel [(12, True), (- 200, True), (300, True)]) =
     detected (pollChannel 70 60 busyChannel 12 True) \<and>
   qualifies 70 (- 90) True \<and>
   detected (polls 70 60 quietChannel [(- 90, True), (70, True), (- 200, False)]) =
     detected (pollChannel 70 60 quietChannel (- 90) True)"
proof -
  have h1: "list_all (\<lambda>(v, f). qualifies 70 v f) [(- 200, True), (300, True), (- 71, True)] \<and>
    int (length [(- 200 :: 16 word, True), (300, True), (- 71, True)]) \<ge> DEBOUNCE_COUNT"
    by code_simp
  have h2: "list_all (\<lambda>(v, f). \<not> qualifies 70 v f) [(70, True), (- 200, False), (0, False)] \<and>
    int (length [(70 :: 16 word, True), (- 200, False), (0, False)]) \<ge> DEBOUNCE_COUNT"
    by code_simp
  have h3: "list_all (\<lambda>(v, f). qualifies 70 v f) [(- 200, True), (300, True)] \<and>
    int (length [(- 200 :: 16 word, True), (300, True)]) < DEBOUNCE_COUNT \<and>
    detectionCount quietChannel = 0"
    by code_simp
  have h4: "list_all (\<lambda>(v, f). \<not> qualifies 70 v f) [(70, True), (- 200, False)] \<and>
    int (length [(70 :: 16 word, True), (- 200, False)]) < DEBOUNCE_COUNT \<and>
    nonDetectionCount busyChannel = 0"
    by code_simp
  have h5: "\<not> qualifies 70 12 True" by code_simp
  have h6: "qualifies 70 (- 90) True" by code_simp
  have g1: "detected (polls 70 60 quietChannel [(- 200, True), (300, True), (- 71, True)])"
    using h1 debounce [of 70 "[(- 200, True), (300, True), (- 71, True)]" 60 quietChannel 0 False]
    by blast
  have g2: "\<not> detected (polls 70 60 busyChannel [(70, True), (- 200, False), (0, False)]) \<and>
     intensity (polls 70 60 busyChannel [(70, True), (- 200, False), (0, False)]) = 0"
    using h2 debounce [of 70 "[(70, True), (- 200, False), (0, False)]" 60 busyChannel 0 False]
    by blast
  have g3: "detected (polls 70 60 quietChannel [(- 200, True), (300, True)]) = detected quietChannel"
    using h3 debounce [of 70 "[(- 200, True), (300, True)]" 60 quietChannel 0 False]
    by blast
  have g4: "detected (polls 70 60 busyChannel [(70, True), (- 200, False)]) = detected busyChannel"
    using h4 debounce [of 70 "[(70, True), (- 200, False)]" 60 busyChannel 0 False]
    by blast
  have g5: "detected (polls 70 60 busyChannel [(12, True), (- 200, True), (300, True)]) =
     detected (pollChannel 70 60 busyChannel 12 True)"
    using h3 h5 debounce [of 70 "[(- 200, True), (300, True)]" 60 busyChannel 12 True]
    by blast
  have g6: "detected (polls 70 60 quietChannel [(- 90, True), (70, True), (- 200, False)]) =
     detected (pollChannel 70 60 quietChannel (- 90) True)"
    using h4 h6 debounce [of 70 "[(70, True), (- 200, False)]" 60 quietChannel "- 90" True]
    by blast
  show ?thesis
    using h1 h2 h3 h4 h5 h6 g1 g2 g3 g4 g5 g6 by blast
qed

lemma log201_bounds: "138 \<le> log 10 201 * 60" "log 10 201 * (60::real) < 1385 / 10"
proof -
  have a: "\<lfloor>log 10 (real_of_int 201) * real 60\<rfloor> = int 138"
    by (rule floor_log_scaled) simp_all
  have b: "\<lfloor>log 10 (real_of_int 201) * real 120\<rfloor> = int 276"
    by (rule floor_log_scaled) simp_all
  from a have "\<lfloor>log 10 201 * 60 :: real\<rfloor> = 138" by simp
  then show "138 \<le> log 10 201 * 60" by (simp add: floor_eq_iff)
  from b have "\<lfloor>log 10 201 * 120 :: real\<rfloor> = 276" by simp
  then have "log 10 201 * (120::real) < 277" by (simp add: floor_eq_iff)
  then show "log 10 201 * (60::real) < 1385 / 10" by simp
qed

text \<open>
  Claim C6. With the presence floor 70 and scale factor 60, three consecutive polls of the
  raw value -200 with the flag set leave, from every channel state, \<open>detected\<close> true and
  the intensity 138; the spec's formula, with rounding, gives 138 as well.
\<close>

theorem presence_scenario:
  "detected (polls PRESENCE_MIN_VALUE PRESENCE_LOG_SCALE_FACTOR ch
              [(- 200, True), (- 200, True), (- 200, True)]) \<and>
   intensity (polls PRESENCE_MIN_VALUE PRESENCE_LOG_SCALE_FACTOR ch
              [(- 200, True), (- 200, True), (- 200, True)]) = 138 \<and>
   constrain (round (logScaled \<bar>- 200\<bar> 60)) 0 255 = 138"
proof -
  have q: "\<forall>(v, f) \<in> set [(- 200 :: 16 word, True), (- 200, True), (- 200, True)].
             qualifies PRESENCE_MIN_VALUE v f"
    by (simp add: qualifies_def PRESENCE_MIN_VALUE_def)
  have b: "0 \<le> uint (detectionCount ch)" by simp
  note P = polls_qualifying [OF q, of PRESENCE_LOG_SCALE_FACTOR ch]
  have d: "detected (polls PRESENCE_MIN_VALUE PRESENCE_LOG_SCALE_FACTOR ch
              [(- 200, True), (- 200, True), (- 200, True)])"
    using P b by simp
  have "intensity (polls PRESENCE_MIN_VALUE PRESENCE_LOG_SCALE_FACTOR ch
              [(- 200, True), (- 200, True), (- 200, True)]) =
        logIntensity (- 200) PRESENCE_LOG_SCALE_FACTOR"
    using P b by simp
  then have i: "intensity (polls PRESENCE_MIN_VALUE PRESENCE_LOG_SCALE_FACTOR ch
              [(- 200, True), (- 200, True), (- 200, True)]) = 138"
    by (simp add: PRESENCE_LOG_SCALE_FACTOR_def logIntensity_200)
  have "round (log 10 201 * 60 :: real) = 138"
    using log201_bounds by (simp add: round_def floor_eq_iff)
  then have r: "constrain (round (logScaled \<bar>- 200\<bar> 60)) 0 255 = 138"
    by (simp add: constrain_def logScaled_def)
  show ?thesis using d i r by simp
qed

lemma logIntensity_18000: "logIntensity 18000 60 = 255"
proof -
  have "\<lfloor>logScaled 18000 (int 60)\<rfloor> = int 255"
    by (rule logScaled_floor) simp_all
  then have "\<lfloor>logScaled \<bar>sint (18000 :: 16 word)\<bar> (uint (60 :: u8))\<rfloor> = 255" by simp
  from logIntensity_floor [OF this] show ?thesis by (simp add: constrain_def)
qed

lemma logIntensity_20000: "logIntensity 20000 60 = 2"
proof -
  have "\<lfloor>logScaled 20000 (int 60)\<rfloor> = int 258"
    by (rule logScaled_floor) simp_all
  then have "\<lfloor>logScaled \<bar>sint (20000 :: 16 word)\<bar> (uint (60 :: u8))\<rfloor> = 258" by simp
  from logIntensity_floor [OF this] show ?thesis by (simp add: constrain_def)
qed

text \<open>
  Claim C7 at two qualifying presence readings, 18000 and 20000, with the scale factor 60:
  the smaller reading has intensity 255 and the larger one intensity 2, alone and after
  three polls from the start-up state. \<open>log10(20001) * 60\<close> is 258.06; the cast to
  \<open>uint8_t\<close> keeps 258 mod 256 = 2 before \<open>constrain\<close> sees the value.
\<close>

theorem log_intensity_wraps:
  "qualifies PRESENCE_MIN_VALUE 18000 True \<and> qualifies PRESENCE_MIN_VALUE 20000 True \<and>
   \<bar>sint (18000 :: 16 word)\<bar> \<le> \<bar>sint (20000 :: 16 word)\<bar> \<and>
   logIntensity 18000 PRESENCE_LOG_SCALE_FACTOR = 255 \<and>
   logIntensity 20000 PRESENCE_LOG_SCALE_FACTOR = 2 \<and>
   \<not> logIntensity 18000 PRESENCE_LOG_SCALE_FACTOR \<le> logIntensity 20000 PRESENCE_LOG_SCALE_FACTOR \<and>
   intensity (polls PRESENCE_MIN_VALUE PRESENCE_LOG_SCALE_FACTOR initialChannel
               [(18000, True), (18000, True), (18000, True)]) = 255 \<and>
   intensity (polls PRESENCE_MIN_VALUE PRESENCE_LOG_SCALE_FACTOR initialChannel
               [(20000, True), (20000, True), (20000, True)]) = 2"
proof -
  have q: "qualifies PRESENCE_MIN_VALUE 18000 True \<and> qualifies PRESENCE_MIN_VALUE 20000 True \<and>
   \<bar>sint (18000 :: 16 word)\<bar> \<le> \<bar>sint (20000 :: 16 word)\<bar>"
    by (simp add: qualifies_def PRESENCE_MIN_VALUE_def)
  have l: "logIntensity 18000 PRESENCE_LOG_SCALE_FACTOR = 255 \<and>
   logIntensity 20000 PRESENCE_LOG_SCALE_FACTOR = 2"
    by (simp add: PRESENCE_LOG_SCALE_FACTOR_def logIntensity_18000 logIntensity_20000)
  have n: "\<not> logIntensity 18000 PRESENCE_LOG_SCALE_FACTOR \<le> logIntensity 20000 PRESENCE_LOG_SCALE_FACTOR"
    using l by simp
  have q1: "\<forall>(v, f) \<in> set [(18000 :: 16 word, True), (18000, True), (18000, True)].
             qualifies PRESENCE_MIN_VALUE v f" using q by simp
  have q2: "\<forall>(v, f) \<in> set [(20000 :: 16 word, True), (20000, True), (20000, True)].
             qualifies PRESENCE_MIN_VALUE v f" using q by simp
  have p1: "intensity (polls PRESENCE_MIN_VALUE PRESENCE_LOG_SCALE_FACTOR initialChannel
               [(18000, True), (18000, True), (18000, True)]) = 255"
    using polls_qualifying [OF q1, of PRESENCE_LOG_SCALE_FACTOR initialChannel] l
    by (simp add: initialChannel_def)
  have p2: "intensity (polls PRESENCE_MIN_VALUE PRESENCE_LOG_SCALE_FACTOR initialChannel
               [(20000, True), (20000, True), (20000, True)]) = 2"
    using polls_qualifying [OF q2, of PRESENCE_LOG_SCALE_FACTOR initialChannel] l
    by (simp add: initialChannel_def)
  show ?thesis using q l n p1 p2 by simp
qed

lemma logIntensity_below_256:
  assumes "logScaled \<bar>sint v\<bar> (uint scale) < 256"
  shows "uint (logIntensity v scale) = \<lfloor>logScaled \<bar>sint v\<bar> (uint scale)\<rfloor>"
proof -
  let ?x = "logScaled \<bar>sint v\<bar> (uint scale)"
  have x0: "0 \<le> ?x" by (rule logScaled_nonneg) simp_all
  then have f0: "0 \<le> \<lfloor>?x\<rfloor>" by simp
  have f1: "\<lfloor>?x\<rfloor> < 256" using assms by (simp add: floor_less_iff)
  have "logIntensity v scale = word_of_int (constrain (\<lfloor>?x\<rfloor> mod 256) 0 255)"
    by (rule logIntensity_floor [OF refl f0])
  then show ?thesis
    using f0 f1 by (simp add: constrain_def uint_word_of_int take_bit_int_eq_self)
qed

text \<open>
  Where the scaled logarithm of the larger reading stays below 256 the intensity, as
  computed from the exact logarithm, is monotone in the absolute value of the reading.
\<close>

lemma logIntensity_mono_below_256:
  assumes "\<bar>sint v1\<bar> \<le> \<bar>sint v2\<bar>" and "logScaled \<bar>sint v2\<bar> (uint scale) < 256"
  shows "logIntensity v1 scale \<le> logIntensity v2 scale"
proof -
  have le: "logScaled \<bar>sint v1\<bar> (uint scale) \<le> logScaled \<bar>sint v2\<bar> (uint scale)"
    using assms(1) by (intro logScaled_mono) simp_all
  then have "logScaled \<bar>sint v1\<bar> (uint scale) < 256" using assms(2) by linarith
  then show ?thesis
    using logIntensity_below_256 [OF assms(2)] logIntensity_below_256 [of v1 scale] le
    by (simp add: word_le_def floor_mono)
qed

subsection \<open>Floating point\<close>

text \<open>
  \<open>round_to\<close> returns a value of the format, and no value of the format is nearer to
  its argument; so it returns a value of the format unchanged and keeps a value between
  two values of the format between them.
\<close>

lemma ilog2_bounds: "1 \<le> n \<Longrightarrow> 2 ^ ilog2 n \<le> n \<and> n < 2 ^ Suc (ilog2 n)"
proof (induction n rule: ilog2.induct)
  case (1 n)
  show ?case
  proof (cases "n < 2")
    case True
    then have "n = 1" using 1(2) by simp
    then show ?thesis by (simp add: ilog2.simps)
  next
    case False
    then have h: "1 \<le> n div 2" by simp
    note IH = 1(1) [OF False h]
    have e: "ilog2 n = Suc (ilog2 (n div 2))" using False by (subst ilog2.simps) simp
    have "2 * 2 ^ ilog2 (n div 2) \<le> 2 * (n div 2)" using IH by simp
    also have "\<dots> \<le> n" by simp
    finally have a: "2 ^ ilog2 n \<le> n" by (simp add: e)
    have "n div 2 + 1 \<le> 2 ^ Suc (ilog2 (n div 2))" using IH by simp
    then have "2 * (n div 2) + 2 \<le> 2 * 2 ^ Suc (ilog2 (n div 2))" by simp
    moreover have "n < 2 * (n div 2) + 2" by presburger
    ultimately have b: "n < 2 ^ Suc (ilog2 n)" by (simp add: e)
    show ?thesis using a b by simp
  qed
qed

lemma floor_log2_bounds:
  assumes "0 < a"
  shows "2 powi floor_log2 a \<le> a" and "a < 2 powi (floor_log2 a + 1)"
proof -
  have "2 powi floor_log2 a \<le> a \<and> a < 2 powi (floor_log2 a + 1)"
  proof (cases "1 \<le> a")
    case True
    define n where "n = \<lfloor>a\<rfloor>"
    have n1: "1 \<le> n" using True by (simp add: n_def le_floor_iff)
    note B = ilog2_bounds [OF n1]
    have k: "floor_log2 a = int (ilog2 n)" using True by (simp add: floor_log2_def n_def)
    have "real_of_int (2 ^ ilog2 n) \<le> real_of_int n" using B by (simp only: of_int_le_iff)
    also have "\<dots> \<le> a" by (simp add: n_def)
    finally have l: "2 powi floor_log2 a \<le> a" by (simp add: k power_int_of_nat)
    have "n + 1 \<le> 2 ^ Suc (ilog2 n)" using B by simp
    then have "real_of_int (n + 1) \<le> real_of_int (2 ^ Suc (ilog2 n))" by (simp only: of_int_le_iff)
    moreover have "a < real_of_int (n + 1)" by (simp add: n_def)
    ultimately have "a < 2 ^ Suc (ilog2 n)" by simp
    moreover have "2 powi (floor_log2 a + 1) = (2::real) ^ Suc (ilog2 n)"
      unfolding k by (simp add: power_int_add)
    ultimately show ?thesis using l by simp
  next
    case False
    define u where "u = 1 / a"
    have u1: "1 < u" using False assms by (simp add: u_def)
    define n where "n = \<lfloor>u\<rfloor>"
    have n1: "1 \<le> n" using u1 by (simp add: n_def le_floor_iff)
    note B = ilog2_bounds [OF n1]
    define j where "j = ilog2 n"
    have "real_of_int (2 ^ j) \<le> real_of_int n" using B unfolding j_def by (simp only: of_int_le_iff)
    also have "\<dots> \<le> u" by (simp add: n_def)
    finally have lo: "2 ^ j \<le> u" by simp
    have "n + 1 \<le> 2 ^ Suc j" using B by (simp add: j_def)
    then have "real_of_int (n + 1) \<le> real_of_int (2 ^ Suc j)" by (simp only: of_int_le_iff)
    moreover have "u < real_of_int (n + 1)" by (simp add: n_def)
    ultimately have hi: "u < 2 * 2 ^ j" by simp
    have a1: "a * 2 ^ j \<le> 1" using lo assms by (simp add: u_def field_simps)
    have a2: "1 < a * (2 * 2 ^ j)" using hi assms by (simp add: u_def field_simps)
    have pj: "(2::real) powi (- int j) = 1 / 2 ^ j"
      by (simp add: power_int_minus power_int_of_nat field_simps)
    have pj1: "(2::real) powi (- int j - 1) = 1 / (2 * 2 ^ j)"
    proof -
      have e: "- int j - 1 = - int (Suc j)" by simp
      have "(2::real) powi (- int j - 1) = 2 powi (- int (Suc j))" by (simp only: e)
      also have "\<dots> = 1 / 2 ^ Suc j"
        by (simp only: power_int_minus power_int_of_nat inverse_eq_divide)
      finally show ?thesis by simp
    qed
    have pj2: "(2::real) powi (- int j + 1) = 2 / 2 ^ j"
    proof -
      have "(2::real) powi (- int j + 1) = 2 powi (- int j) * 2 powi 1"
        by (rule power_int_add) simp
      then show ?thesis by (simp add: pj)
    qed
    have pj3: "(2::real) powi (- int j - 1 + 1) = 1 / 2 ^ j"
    proof -
      have e: "- int j - 1 + 1 = - int j" by simp
      show ?thesis by (simp only: e pj)
    qed
    show ?thesis
    proof (cases "a * 2 ^ j = 1")
      case True
      have k: "floor_log2 a = - int j"
        using False True by (simp add: floor_log2_def u_def n_def j_def Let_def)
      have "a = 1 / 2 ^ j" using True by (simp add: field_simps)
      then have "1 / 2 ^ j \<le> a \<and> a < 2 / 2 ^ j" using assms by (simp add: field_simps)
      then show ?thesis by (simp only: k pj pj2)
    next
      case ne: False
      have k: "floor_log2 a = - int j - 1"
        using False ne by (simp add: floor_log2_def u_def n_def j_def Let_def)
      have "a * 2 ^ j < 1" using a1 ne by simp
      then have "a < 1 / 2 ^ j" by (simp add: field_simps)
      moreover have "1 / (2 * 2 ^ j) < a" using a2 by (simp add: field_simps)
      ultimately have "1 / (2 * 2 ^ j) \<le> a \<and> a < 1 / 2 ^ j" by simp
      then show ?thesis by (simp only: k pj1 pj3)
    qed
  qed
  then show "2 powi floor_log2 a \<le> a" and "a < 2 powi (floor_log2 a + 1)" by simp_all
qed

lemma round_even_error: "\<bar>real_of_int (round_even z) - z\<bar> \<le> 1 / 2"
  unfolding round_even_def Let_def by (auto simp: abs_if) linarith+

lemma round_even_nearest: "\<bar>z - real_of_int (round_even z)\<bar> \<le> \<bar>z - real_of_int n\<bar>"
proof (cases "n = round_even z")
  case True
  then show ?thesis by simp
next
  case False
  then have "1 \<le> \<bar>n - round_even z\<bar>" by simp
  then have "1 \<le> \<bar>real_of_int n - real_of_int (round_even z)\<bar>"
    by (metis of_int_1_le_iff of_int_abs of_int_diff)
  then show ?thesis using round_even_error [of z] by linarith
qed

lemma powi_pos: "0 < (2::real) powi q"
  by (simp add: zero_less_power_int)

lemma powi_half: "(2::real) powi (q - 1) = 2 powi q / 2"
proof -
  have "(2::real) powi (q - 1 + 1) = 2 powi (q - 1) * 2"
    by (rule power_int_add_1) simp
  then show ?thesis by simp
qed

lemma powi_mono: "a \<le> b \<Longrightarrow> (2::real) powi a \<le> 2 powi b"
  by (rule power_int_increasing) simp_all

lemma powi_less_exp: "(2::real) powi a < 2 powi b \<Longrightarrow> a < b"
proof (rule ccontr)
  assume h: "(2::real) powi a < 2 powi b" and n: "\<not> a < b"
  then have "(2::real) powi b \<le> 2 powi a" by (intro powi_mono) simp
  then show False using h by simp
qed

lemma powi_split: "(2::real) powi (a + b) = 2 powi a * 2 powi b"
  by (rule power_int_add) simp

lemma powi_diff_nat: "b \<le> a \<Longrightarrow> (2::real) powi a = real_of_int (2 ^ nat (a - b)) * 2 powi b"
proof -
  assume h: "b \<le> a"
  have "(2::real) powi a = 2 powi ((a - b) + b)" by simp
  also have "\<dots> = 2 powi (a - b) * 2 powi b" by (rule powi_split)
  also have "(2::real) powi (a - b) = 2 ^ nat (a - b)" using h by (simp add: power_int_nonneg_exp)
  finally show ?thesis by simp
qed

lemma abs_scaled:
  fixes P :: real
  assumes "0 < P"
  shows "\<bar>z * P - n * P\<bar> = \<bar>z - n\<bar> * P"
proof -
  have "z * P - n * P = (z - n) * P" by (simp add: algebra_simps)
  then show ?thesis using assms by (simp add: abs_mult)
qed

lemma round_to_unfold:
  assumes "y \<noteq> 0"
  shows "round_to p emin y =
           real_of_int (round_even (y / 2 powi (max emin (floor_log2 \<bar>y\<bar> - int p + 1)))) *
           2 powi (max emin (floor_log2 \<bar>y\<bar> - int p + 1))"
  using assms by (simp add: round_to_def Let_def)

text \<open>The result of a rounding is within half a unit of the last place of its argument.\<close>

lemma round_to_error:
  "\<bar>y - round_to p emin y\<bar> \<le> 2 powi (max emin (floor_log2 \<bar>y\<bar> - int p + 1)) / 2"
proof (cases "y = 0")
  case True
  then show ?thesis using powi_pos [of "max emin (floor_log2 \<bar>y\<bar> - int p + 1)"]
    by (simp add: round_to_def)
next
  case False
  define q where "q = max emin (floor_log2 \<bar>y\<bar> - int p + 1)"
  define P :: real where "P = 2 powi q"
  have P: "0 < P" by (simp add: P_def powi_pos)
  define z where "z = y / P"
  define m where "m = round_even z"
  have r: "round_to p emin y = real_of_int m * P"
    using round_to_unfold [OF False, of p emin] by (simp add: q_def P_def z_def m_def)
  have e: "\<bar>real_of_int m - z\<bar> \<le> 1 / 2" unfolding m_def by (rule round_even_error)
  have y: "y = z * P" using P by (simp add: z_def)
  have "\<bar>y - real_of_int m * P\<bar> = \<bar>(z - real_of_int m) * P\<bar>" by (simp add: y algebra_simps)
  also have "\<dots> = \<bar>z - real_of_int m\<bar> * P" using P by (simp add: abs_mult)
  also have "\<dots> \<le> 1 / 2 * P" using e P by (intro mult_right_mono) (simp_all add: abs_minus_commute)
  finally show ?thesis by (simp add: r q_def [symmetric] P_def [symmetric])
qed

text \<open>The result of a rounding is a value of the format.\<close>

lemma round_to_representable:
  assumes "1 \<le> p"
  shows "representable p emin (round_to p emin y)"
proof (cases "y = 0")
  case True
  have "round_to p emin y = 0" by (simp add: True round_to_def)
  then have "round_to p emin y = real_of_int 0 * 2 powi emin \<and> \<bar>0::int\<bar> < 2 ^ p \<and>
      emin \<le> emin" by simp
  then show ?thesis unfolding representable_def by blast
next
  case False
  define k where "k = floor_log2 \<bar>y\<bar>"
  define q where "q = max emin (k - int p + 1)"
  define P :: real where "P = 2 powi q"
  have P: "0 < P" by (simp add: P_def powi_pos)
  define z where "z = y / P"
  define m where "m = round_even z"
  have r: "round_to p emin y = real_of_int m * P"
    using round_to_unfold [OF False, of p emin] by (simp add: q_def k_def P_def z_def m_def)
  have e: "\<bar>real_of_int m - z\<bar> \<le> 1 / 2" unfolding m_def by (rule round_even_error)
  have ypos: "0 < \<bar>y\<bar>" using False by simp
  have "\<bar>y\<bar> < 2 powi (k + 1)" unfolding k_def by (rule floor_log2_bounds(2) [OF ypos])
  also have "\<dots> \<le> 2 powi (int p + q)" by (rule powi_mono) (simp add: q_def)
  also have "\<dots> = 2 ^ p * P" by (simp add: powi_split P_def power_int_of_nat)
  finally have "\<bar>y\<bar> < 2 ^ p * P" .
  then have zb: "\<bar>z\<bar> < 2 ^ p" using P by (simp add: z_def field_simps)
  have mb: "\<bar>m\<bar> \<le> 2 ^ p"
  proof (rule ccontr)
    assume "\<not> \<bar>m\<bar> \<le> 2 ^ p"
    then have "2 ^ p + 1 \<le> \<bar>m\<bar>" by simp
    then have "real_of_int (2 ^ p + 1) \<le> real_of_int \<bar>m\<bar>" by (simp only: of_int_le_iff)
    then have "2 ^ p + 1 \<le> \<bar>real_of_int m\<bar>" by simp
    then show False using e zb by linarith
  qed
  show ?thesis
  proof (cases "\<bar>m\<bar> < 2 ^ p")
    case True
    have "round_to p emin y = real_of_int m * 2 powi q \<and> \<bar>m\<bar> < 2 ^ p \<and> emin \<le> q"
      using True r by (simp add: P_def q_def)
    then show ?thesis unfolding representable_def by blast
  next
    case False
    then have me: "\<bar>m\<bar> = 2 ^ p" using mb by simp
    obtain p' where p': "p = Suc p'" using assms by (cases p) simp_all
    define m' :: int where "m' = (if 0 \<le> m then 2 ^ p' else - (2 ^ p'))"
    have m2: "m = 2 * m'" and m'b: "\<bar>m'\<bar> = 2 ^ p'"
      using me unfolding m'_def p' by (auto simp: abs_if split: if_splits)
    have "(2::real) powi (q + 1) = 2 powi q * 2" by (rule power_int_add_1) simp
    then have "real_of_int m * P = real_of_int m' * 2 powi (q + 1)"
      by (simp add: m2 P_def)
    moreover have "\<bar>m'\<bar> < 2 ^ p" by (simp add: m'b p')
    moreover have "emin \<le> q + 1" by (simp add: q_def)
    ultimately have "round_to p emin y = real_of_int m' * 2 powi (q + 1) \<and> \<bar>m'\<bar> < 2 ^ p \<and>
        emin \<le> q + 1" using r by simp
    then show ?thesis unfolding representable_def by blast
  qed
qed

text \<open>
  A value of the format above \<open>2^k\<close> in magnitude is a multiple of \<open>2^(k - p + 1)\<close>.
\<close>

lemma representable_grid:
  assumes "representable p emin f" and "2 powi k < \<bar>f\<bar>"
  shows "\<exists>n::int. f = real_of_int n * 2 powi (k - int p + 1)"
proof -
  obtain m q where f: "f = real_of_int m * 2 powi q" and m: "\<bar>m\<bar> < 2 ^ p" and q: "emin \<le> q"
    using assms(1) unfolding representable_def by blast
  have "real_of_int \<bar>m\<bar> < real_of_int (2 ^ p)" using m by (simp only: of_int_less_iff)
  then have mr: "\<bar>real_of_int m\<bar> < 2 ^ p" by simp
  have "\<bar>f\<bar> = \<bar>real_of_int m\<bar> * 2 powi q" using powi_pos [of q] by (simp add: f abs_mult)
  also have "\<dots> \<le> 2 ^ p * 2 powi q" using mr powi_pos [of q] by (intro mult_right_mono) simp_all
  also have "\<dots> = 2 powi (int p + q)" by (simp add: powi_split power_int_of_nat)
  finally have "(2::real) powi k < 2 powi (int p + q)" using assms(2) by simp
  then have "k < int p + q" by (rule powi_less_exp)
  then have le: "k - int p + 1 \<le> q" by simp
  have "f = real_of_int (m * 2 ^ nat (q - (k - int p + 1))) * 2 powi (k - int p + 1)"
    unfolding f using powi_diff_nat [OF le] by simp
  then show ?thesis by blast
qed

text \<open>No value of the format is nearer to \<open>y\<close> than the rounding of \<open>y\<close>.\<close>

lemma round_to_nearest:
  assumes "1 \<le> p" and "representable p emin f"
  shows "\<bar>y - round_to p emin y\<bar> \<le> \<bar>y - f\<bar>"
proof (cases "y = 0")
  case True
  then show ?thesis by (simp add: round_to_def)
next
  case False
  obtain mf qf where f: "f = real_of_int mf * 2 powi qf" and mf: "\<bar>mf\<bar> < 2 ^ p"
    and qf: "emin \<le> qf"
    using assms(2) unfolding representable_def by blast
  define k where "k = floor_log2 \<bar>y\<bar>"
  define q where "q = max emin (k - int p + 1)"
  define P :: real where "P = 2 powi q"
  have P: "0 < P" by (simp add: P_def powi_pos)
  define z where "z = y / P"
  define m where "m = round_even z"
  have r: "round_to p emin y = real_of_int m * P"
    using round_to_unfold [OF False, of p emin] by (simp add: q_def k_def P_def z_def m_def)
  have y: "y = z * P" using P by (simp add: z_def)
  show ?thesis
  proof (cases "q \<le> qf")
    case True
    define n where "n = mf * 2 ^ nat (qf - q)"
    have fn: "f = real_of_int n * P"
      unfolding f n_def P_def using powi_diff_nat [OF True] by simp
    have "\<bar>z - real_of_int m\<bar> \<le> \<bar>z - real_of_int n\<bar>"
      unfolding m_def by (rule round_even_nearest)
    then have "\<bar>z - real_of_int m\<bar> * P \<le> \<bar>z - real_of_int n\<bar> * P"
      using P by (intro mult_right_mono) simp_all
    moreover have "\<bar>y - real_of_int m * P\<bar> = \<bar>z - real_of_int m\<bar> * P"
      unfolding y by (rule abs_scaled [OF P])
    moreover have "\<bar>y - real_of_int n * P\<bar> = \<bar>z - real_of_int n\<bar> * P"
      unfolding y by (rule abs_scaled [OF P])
    ultimately show ?thesis by (simp add: r fn)
  next
    case False
    then have lt: "qf \<le> q - 1" by simp
    then have "emin < q" using qf by simp
    then have qk: "q = k - int p + 1" by (simp add: q_def)
    have ypos: "0 < \<bar>y\<bar>" using \<open>y \<noteq> 0\<close> by simp
    have ylo: "2 powi k \<le> \<bar>y\<bar>" unfolding k_def by (rule floor_log2_bounds(1) [OF ypos])
    have "\<bar>mf\<bar> \<le> 2 ^ p - 1" using mf by simp
    then have "real_of_int \<bar>mf\<bar> \<le> real_of_int (2 ^ p - 1)" by (simp only: of_int_le_iff)
    then have mr: "\<bar>real_of_int mf\<bar> \<le> 2 ^ p - 1" by simp
    have p1: "(1::real) \<le> 2 ^ p" by simp
    have "\<bar>f\<bar> = \<bar>real_of_int mf\<bar> * 2 powi qf" using powi_pos [of qf] by (simp add: f abs_mult)
    also have "\<dots> \<le> (2 ^ p - 1) * 2 powi qf"
      using mr powi_pos [of qf] by (intro mult_right_mono) simp_all
    also have "\<dots> \<le> (2 ^ p - 1) * 2 powi (q - 1)"
      using powi_mono [OF lt] p1 by (intro mult_left_mono) simp_all
    also have "\<dots> = 2 ^ p * 2 powi (q - 1) - 2 powi (q - 1)" by (simp add: algebra_simps)
    also have "2 ^ p * (2::real) powi (q - 1) = 2 powi (int p + (q - 1))"
      by (simp add: powi_split power_int_of_nat)
    also have "int p + (q - 1) = k" by (simp add: qk)
    finally have fb: "\<bar>f\<bar> \<le> 2 powi k - 2 powi (q - 1)" .
    have "2 powi (q - 1) \<le> \<bar>y\<bar> - \<bar>f\<bar>" using fb ylo by simp
    also have "\<dots> \<le> \<bar>y - f\<bar>" by simp
    finally have "P / 2 \<le> \<bar>y - f\<bar>" by (simp add: powi_half P_def)
    moreover have "\<bar>y - round_to p emin y\<bar> \<le> P / 2"
      using round_to_error [of y p emin] by (simp add: q_def k_def P_def)
    ultimately show ?thesis by simp
  qed
qed

lemma round_to_exact:
  assumes "1 \<le> p" and "representable p emin f"
  shows "round_to p emin f = f"
  using round_to_nearest [OF assms, of f] by simp

lemma round_to_lower:
  assumes "1 \<le> p" and "representable p emin lo" and "lo \<le> y"
  shows "lo \<le> round_to p emin y"
  using round_to_nearest [OF assms(1,2), of y] assms(3) by linarith

lemma round_to_upper:
  assumes "1 \<le> p" and "representable p emin hi" and "y \<le> hi"
  shows "round_to p emin y \<le> hi"
  using round_to_nearest [OF assms(1,2), of y] assms(3) by linarith

lemma round_to_error_below:
  assumes "y \<noteq> 0" and "\<bar>y\<bar> < 2 powi k" and "emin \<le> k - int p"
  shows "\<bar>y - round_to p emin y\<bar> \<le> 2 powi (k - int p) / 2"
proof -
  have ypos: "0 < \<bar>y\<bar>" using assms(1) by simp
  have "2 powi floor_log2 \<bar>y\<bar> < (2::real) powi k"
    using floor_log2_bounds(1) [OF ypos] assms(2) by simp
  then have "floor_log2 \<bar>y\<bar> < k" by (rule powi_less_exp)
  then have "max emin (floor_log2 \<bar>y\<bar> - int p + 1) \<le> k - int p" using assms(3) by simp
  then have "(2::real) powi (max emin (floor_log2 \<bar>y\<bar> - int p + 1)) \<le> 2 powi (k - int p)"
    by (rule powi_mono)
  then show ?thesis using round_to_error [of y p emin] by simp
qed

lemma to_float_representable: "representable 24 (- 149) (to_float y)"
  unfolding to_float_def by (rule round_to_representable) simp

lemma float_representable: "to_float s = s \<Longrightarrow> representable 24 (- 149) s"
  using to_float_representable [of s] by simp

lemma float_is_double:
  assumes "representable 24 (- 149) v"
  shows "representable 53 (- 1074) v"
proof -
  obtain m q where v: "v = real_of_int m * 2 powi q" and m: "\<bar>m\<bar> < 2 ^ 24" and q: "- 149 \<le> q"
    using assms unfolding representable_def by blast
  have "v = real_of_int m * 2 powi q \<and> \<bar>m\<bar> < 2 ^ 53 \<and> - 1074 \<le> q"
    using v m q by simp
  then show ?thesis unfolding representable_def by blast
qed

lemma int_representable:
  assumes "\<bar>n\<bar> < 2 ^ 24"
  shows "representable 24 (- 149) (real_of_int n)"
proof -
  have "real_of_int n = real_of_int n * 2 powi 0 \<and> \<bar>n\<bar> < 2 ^ 24 \<and> (- 149::int) \<le> 0"
    using assms by simp
  then show ?thesis unfolding representable_def by blast
qed

lemma to_float_exact: "representable 24 (- 149) v \<Longrightarrow> to_float v = v"
  unfolding to_float_def by (rule round_to_exact) simp_all

lemma to_double_exact: "representable 53 (- 1074) v \<Longrightarrow> to_double v = v"
  unfolding to_double_def by (rule round_to_exact) simp_all

lemma to_float_between:
  assumes "representable 24 (- 149) lo" and "representable 24 (- 149) hi"
    and "lo \<le> y" and "y \<le> hi"
  shows "lo \<le> to_float y \<and> to_float y \<le> hi"
  unfolding to_float_def
  using round_to_lower [OF _ assms(1,3)] round_to_upper [OF _ assms(2,4)] by simp

lemma to_double_between:
  assumes "representable 53 (- 1074) lo" and "representable 53 (- 1074) hi"
    and "lo \<le> y" and "y \<le> hi"
  shows "lo \<le> to_double y \<and> to_double y \<le> hi"
  unfolding to_double_def
  using round_to_lower [OF _ assms(1,3)] round_to_upper [OF _ assms(2,4)] by simp

text \<open>The equations that evaluate a rounding.\<close>

lemmas float_eval = to_float_def to_double_def round_to_def floor_log2_def ilog2.simps
  round_even_def Let_def

lemma SMOOTHING_FACTOR_value: "SMOOTHING_FACTOR = 13421773 / 134217728"
  by (simp add: SMOOTHING_FACTOR_def float_eval)

text \<open>
  With the factor of the code, \<open>1.0 - SMOOTHING_FACTOR\<close> and its product with a \<open>float\<close>
  are values of a \<open>double\<close>: these two operations are exact.
\<close>

lemma one_minus_factor_double: "representable 53 (- 1074) (1 - 13421773 / 134217728)"
proof -
  have "(1 - 13421773 / 134217728 :: real) = real_of_int 120795955 * 2 powi (- 27) \<and>
        \<bar>120795955::int\<bar> < 2 ^ 53 \<and> (- 1074::int) \<le> - 27"
    by simp
  then show ?thesis unfolding representable_def by blast
qed

lemma scaled_float_double:
  assumes "representable 24 (- 149) s"
  shows "representable 53 (- 1074) ((1 - 13421773 / 134217728) * s)"
proof -
  obtain m q where s: "s = real_of_int m * 2 powi q" and m: "\<bar>m\<bar> < 2 ^ 24" and q: "- 149 \<le> q"
    using assms unfolding representable_def by blast
  have c: "(1 - 13421773 / 134217728 :: real) = 120795955 * 2 powi (- 27)" by simp
  have "(2::real) powi (q + (- 27)) = 2 powi q * 2 powi (- 27)" by (rule powi_split)
  then have e: "(1 - 13421773 / 134217728) * s = real_of_int (120795955 * m) * 2 powi (q + (- 27))"
    unfolding c s by simp
  have "\<bar>120795955 * m\<bar> = 120795955 * \<bar>m\<bar>" by (simp add: abs_mult)
  also have "\<dots> < 2 ^ 53" using m by simp
  finally have b: "\<bar>120795955 * m\<bar> < 2 ^ 53" .
  have "(1 - 13421773 / 134217728) * s = real_of_int (120795955 * m) * 2 powi (q + (- 27)) \<and>
        \<bar>120795955 * m\<bar> < 2 ^ 53 \<and> - 1074 \<le> q + (- 27)"
    using e b q by simp
  then show ?thesis unfolding representable_def by blast
qed

lemma scaled_int_less:
  fixes U :: real
  assumes "0 < U" and "real_of_int a * U < real_of_int b * U"
  shows "real_of_int (a + 1) * U \<le> real_of_int b * U"
proof -
  have "real_of_int a < real_of_int b" using assms by simp
  then have "a + 1 \<le> b" by simp
  then have "real_of_int (a + 1) \<le> real_of_int b" by (simp only: of_int_le_iff)
  then show ?thesis using assms(1) by (intro mult_right_mono) simp_all
qed

text \<open>
  The nearest \<open>float\<close>s below and above an integer \<open>X\<close> with \<open>2^(e-1) < X \<le> 2^e\<close> are at
  least \<open>2^(e-24)\<close> away from it.
\<close>

lemma float_gap:
  fixes e :: int and X :: int
  assumes "representable 24 (- 149) s" and "e \<le> 24"
    and "2 powi (e - 1) < real_of_int X" and "real_of_int X \<le> 2 powi e"
  shows "s < real_of_int X \<Longrightarrow> s \<le> real_of_int X - 2 powi (e - 24)"
    and "real_of_int X < s \<Longrightarrow> real_of_int X + 2 powi (e - 24) \<le> s"
proof -
  define U :: real where "U = 2 powi (e - 24)"
  have U: "0 < U" by (simp add: U_def powi_pos)
  define N where "N = X * 2 ^ nat (24 - e)"
  have "(2::real) powi 0 = real_of_int (2 ^ nat (0 - (e - 24))) * 2 powi (e - 24)"
    by (rule powi_diff_nat) (use assms(2) in simp)
  then have one: "1 = real_of_int (2 ^ nat (24 - e)) * U" by (simp add: U_def)
  have "real_of_int X = real_of_int X * (real_of_int (2 ^ nat (24 - e)) * U)"
    using one by simp
  then have X: "real_of_int X = real_of_int N * U" by (simp add: N_def)
  have "(2::real) powi (e - 1) = real_of_int (2 ^ nat ((e - 1) - (e - 24))) * 2 powi (e - 24)"
    by (rule powi_diff_nat) simp
  then have H: "2 powi (e - 1) = real_of_int (2 ^ 23) * U" by (simp add: U_def)
  have grid: "\<exists>n::int. s = real_of_int n * U" if "2 powi (e - 1) < s"
  proof -
    have "2 powi (e - 1) < \<bar>s\<bar>" using that by simp
    then obtain n :: int where "s = real_of_int n * 2 powi ((e - 1) - int 24 + 1)"
      using representable_grid [OF assms(1)] by blast
    moreover have "(e - 1) - int 24 + 1 = e - 24" by simp
    ultimately have "s = real_of_int n * U" by (simp add: U_def)
    then show ?thesis by blast
  qed
  show "s \<le> real_of_int X - 2 powi (e - 24)" if lt: "s < real_of_int X"
  proof (cases "2 powi (e - 1) < s")
    case True
    then obtain n :: int where n: "s = real_of_int n * U" using grid by blast
    have "real_of_int (n + 1) * U \<le> real_of_int N * U"
      using lt unfolding n X by (rule scaled_int_less [OF U])
    then have "s + U \<le> real_of_int X" by (simp add: n X algebra_simps)
    then show ?thesis by (simp add: U_def)
  next
    case False
    have "real_of_int (2 ^ 23 + 1) * U \<le> real_of_int N * U"
      using assms(3) unfolding H X by (rule scaled_int_less [OF U])
    then have "2 powi (e - 1) + U \<le> real_of_int X" by (simp add: H X algebra_simps)
    then show ?thesis using False by (simp add: U_def)
  qed
  show "real_of_int X + 2 powi (e - 24) \<le> s" if gt: "real_of_int X < s"
  proof -
    have "2 powi (e - 1) < s" using gt assms(3) by simp
    then obtain n :: int where n: "s = real_of_int n * U" using grid by blast
    have "real_of_int (N + 1) * U \<le> real_of_int n * U"
      using gt unfolding n X by (rule scaled_int_less [OF U])
    then have "real_of_int X + U \<le> s" by (simp add: n X algebra_simps)
    then show ?thesis by (simp add: U_def)
  qed
qed

lemma binade_of_byte:
  assumes "1 \<le> X" and "X \<le> 255"
  shows "\<exists>e::int. 0 \<le> e \<and> e \<le> 8 \<and> 2 powi (e - 1) < real_of_int X \<and> real_of_int X \<le> 2 powi e"
proof -
  consider "X = 1" | "X = 2" | "3 \<le> X \<and> X \<le> 4" | "5 \<le> X \<and> X \<le> 8" | "9 \<le> X \<and> X \<le> 16"
    | "17 \<le> X \<and> X \<le> 32" | "33 \<le> X \<and> X \<le> 64" | "65 \<le> X \<and> X \<le> 128"
    | "129 \<le> X \<and> X \<le> 255"
    using assms by linarith
  then show ?thesis
  proof cases
    case 1
    then have "(0::int) \<le> 0 \<and> (0::int) \<le> 8 \<and> 2 powi (0 - 1) < real_of_int X \<and>
      real_of_int X \<le> 2 powi 0" by simp
    then show ?thesis by blast
  next
    case 2
    then have "(0::int) \<le> 1 \<and> (1::int) \<le> 8 \<and> 2 powi (1 - 1) < real_of_int X \<and>
      real_of_int X \<le> 2 powi 1" by simp
    then show ?thesis by blast
  next
    case 3
    then have "(0::int) \<le> 2 \<and> (2::int) \<le> 8 \<and> 2 powi (2 - 1) < real_of_int X \<and>
      real_of_int X \<le> 2 powi 2" by simp
    then show ?thesis by blast
  next
    case 4
    then have "(0::int) \<le> 3 \<and> (3::int) \<le> 8 \<and> 2 powi (3 - 1) < real_of_int X \<and>
      real_of_int X \<le> 2 powi 3" by simp
    then show ?thesis by blast
  next
    case 5
    then have "(0::int) \<le> 4 \<and> (4::int) \<le> 8 \<and> 2 powi (4 - 1) < real_of_int X \<and>
      real_of_int X \<le> 2 powi 4" by simp
    then show ?thesis by blast
  next
    case 6
    then have "(0::int) \<le> 5 \<and> (5::int) \<le> 8 \<and> 2 powi (5 - 1) < real_of_int X \<and>
      real_of_int X \<le> 2 powi 5" by simp
    then show ?thesis by blast
  next
    case 7
    then have "(0::int) \<le> 6 \<and> (6::int) \<le> 8 \<and> 2 powi (6 - 1) < real_of_int X \<and>
      real_of_int X \<le> 2 powi 6" by simp
    then show ?thesis by blast
  next
    case 8
    then have "(0::int) \<le> 7 \<and> (7::int) \<le> 8 \<and> 2 powi (7 - 1) < real_of_int X \<and>
      real_of_int X \<le> 2 powi 7" by simp
    then show ?thesis by blast
  next
    case 9
    then have "(0::int) \<le> 8 \<and> (8::int) \<le> 8 \<and> 2 powi (8 - 1) < real_of_int X \<and>
      real_of_int X \<le> 2 powi 8" by simp
    then show ?thesis by blast
  qed
qed

text \<open>
  The smoothing update with the factor of the code: the conversion of the intensity, the
  difference and the second product are exact, so three roundings remain.
\<close>

lemma smooth_code:
  assumes "representable 24 (- 149) s" and "0 \<le> X" and "X \<le> 255"
  shows "smooth SMOOTHING_FACTOR (real_of_int X) s =
           to_float (to_double (to_float (SMOOTHING_FACTOR * real_of_int X) +
                                (1 - SMOOTHING_FACTOR) * s))"
proof -
  have "\<bar>X\<bar> < 2 ^ 24" using assms(2,3) by simp
  then have x: "to_float (real_of_int X) = real_of_int X"
    by (intro to_float_exact int_representable)
  have c: "to_double (1 - SMOOTHING_FACTOR) = 1 - SMOOTHING_FACTOR"
    unfolding SMOOTHING_FACTOR_value by (rule to_double_exact [OF one_minus_factor_double])
  have p: "to_double ((1 - SMOOTHING_FACTOR) * s) = (1 - SMOOTHING_FACTOR) * s"
    unfolding SMOOTHING_FACTOR_value by (rule to_double_exact [OF scaled_float_double [OF assms(1)]])
  show ?thesis by (simp only: smooth_def x c p)
qed

text \<open>The error of the product \<open>SMOOTHING_FACTOR * x\<close>, for \<open>0 < x \<le> 2^e\<close>.\<close>

lemma product_error:
  fixes e :: int and X :: int
  assumes "0 \<le> e" and "0 < X" and "real_of_int X \<le> 2 powi e"
  shows "\<bar>13421773 / 134217728 * real_of_int X - to_float (13421773 / 134217728 * real_of_int X)\<bar>
           \<le> 2 powi (e - 28)"
proof -
  define y :: real where "y = 13421773 / 134217728 * real_of_int X"
  have x0: "0 < real_of_int X" using assms(2) by simp
  have y0: "0 < y" using x0 by (simp add: y_def)
  have "y < real_of_int X / 8" using x0 by (simp add: y_def)
  also have "\<dots> \<le> 2 powi e / 8" using assms(3) by simp
  also have "\<dots> = 2 powi (e - 3)"
  proof -
    have "(2::real) powi e = real_of_int (2 ^ nat (e - (e - 3))) * 2 powi (e - 3)"
      by (rule powi_diff_nat) simp
    then show ?thesis by simp
  qed
  finally have yb: "\<bar>y\<bar> < 2 powi (e - 3)" using y0 by simp
  have "y \<noteq> 0" using y0 by simp
  moreover note yb
  moreover have "- 149 \<le> (e - 3) - int 24" using assms(1) by simp
  ultimately have "\<bar>y - round_to 24 (- 149) y\<bar> \<le> 2 powi ((e - 3) - int 24) / 2"
    by (rule round_to_error_below)
  moreover have "(e - 3) - int 24 = e - 27" by simp
  moreover have "(2::real) powi (e - 27 - 1) = 2 powi (e - 27) / 2" by (rule powi_half)
  moreover have "e - 27 - 1 = e - 28" by simp
  ultimately have "\<bar>y - round_to 24 (- 149) y\<bar> \<le> 2 powi (e - 28)" by simp
  then show ?thesis by (simp add: y_def to_float_def)
qed

text \<open>
  The update stays between the prior value and the new intensity. Where the two differ
  they are at least \<open>2^(e-24)\<close> apart, which is 16 times the error of the product, so
  the sum before rounding lies between them and so do its roundings; where they are equal
  the sum is within that error of them, and the rounding returns them.
\<close>

lemma smooth_between:
  assumes s: "representable 24 (- 149) s" and X0: "0 \<le> X" and X255: "X \<le> 255"
  shows "min s (real_of_int X) \<le> smooth SMOOTHING_FACTOR (real_of_int X) s \<and>
         smooth SMOOTHING_FACTOR (real_of_int X) s \<le> max s (real_of_int X)"
proof -
  define x where "x = real_of_int X"
  define t where "t = to_float (13421773 / 134217728 * x)"
  define y where "y = t + (1 - 13421773 / 134217728) * s"
  define d where "d = to_double y"
  define r where "r = to_float d"
  have r: "smooth SMOOTHING_FACTOR (real_of_int X) s = r"
    using smooth_code [OF s X0 X255]
    by (simp add: SMOOTHING_FACTOR_value r_def d_def y_def t_def x_def)
  have "\<bar>X\<bar> < 2 ^ 24" using X0 X255 by simp
  then have xf: "representable 24 (- 149) x" unfolding x_def by (rule int_representable)
  have between: "lo \<le> r \<and> r \<le> hi"
    if "representable 24 (- 149) lo" "representable 24 (- 149) hi" "lo \<le> y" "y \<le> hi" for lo hi
  proof -
    have "lo \<le> d \<and> d \<le> hi"
      unfolding d_def using that by (intro to_double_between float_is_double) simp_all
    then show ?thesis unfolding r_def using that by (intro to_float_between) simp_all
  qed
  have "min s x \<le> r \<and> r \<le> max s x"
  proof (cases "X = 0")
    case True
    then have x0: "x = 0" by (simp add: x_def)
    have "t = 0" by (simp add: t_def x0 to_float_def round_to_def)
    then have y: "y = (1 - 13421773 / 134217728) * s" by (simp add: y_def)
    show ?thesis
    proof (cases "s \<le> x")
      case True
      then have "s \<le> y \<and> y \<le> x" using x0 by (simp add: y)
      then have "s \<le> r \<and> r \<le> x" using between [OF s xf] by simp
      then show ?thesis using True by simp
    next
      case False
      then have "x \<le> y \<and> y \<le> s" using x0 by (simp add: y)
      then have "x \<le> r \<and> r \<le> s" using between [OF xf s] by simp
      then show ?thesis using False by simp
    qed
  next
    case False
    then have X1: "1 \<le> X" "0 < X" using X0 by simp_all
    obtain e :: int where e: "0 \<le> e" "e \<le> 8" and lo: "2 powi (e - 1) < real_of_int X"
      and hi: "real_of_int X \<le> 2 powi e"
      using binade_of_byte [OF X1(1) X255] by blast
    define E :: real where "E = 2 powi (e - 28)"
    define U :: real where "U = 2 powi (e - 24)"
    have E: "0 < E" by (simp add: E_def powi_pos)
    have "(2::real) powi (e - 24) = real_of_int (2 ^ nat ((e - 24) - (e - 28))) * 2 powi (e - 28)"
      by (rule powi_diff_nat) simp
    then have UE: "U = 16 * E" by (simp add: U_def E_def)
    have err: "\<bar>13421773 / 134217728 * x - t\<bar> \<le> E"
      unfolding t_def x_def E_def by (rule product_error [OF e(1) X1(2) hi])
    have e24: "e \<le> 24" using e(2) by simp
    note gap = float_gap [OF _ e24 lo hi, folded U_def x_def]
    consider (less) "s < x" | (eq) "s = x" | (greater) "x < s" by linarith
    then show ?thesis
    proof cases
      case less
      have "s \<le> x - U" using gap(1) [OF s less] .
      then have "s \<le> y \<and> y \<le> x" using err UE E unfolding y_def by (simp add: abs_le_iff) 
      then have "s \<le> r \<and> r \<le> x" using between [OF s xf] by simp
      then show ?thesis using less by simp
    next
      case greater
      have "x + U \<le> s" using gap(2) [OF s greater] .
      then have "x \<le> y \<and> y \<le> s" using err UE E unfolding y_def by (simp add: abs_le_iff)
      then have "x \<le> r \<and> r \<le> s" using between [OF xf s] by simp
      then show ?thesis using greater by simp
    next
      case eq
      have yx: "\<bar>y - x\<bar> \<le> E" using err unfolding y_def eq by (simp add: abs_le_iff)
      have "\<bar>y - d\<bar> \<le> \<bar>y - x\<bar>"
        unfolding d_def to_double_def
        by (rule round_to_nearest [OF _ float_is_double [OF xf]]) simp
      then have dx: "\<bar>d - x\<bar> \<le> 2 * E" using yx by linarith
      have "\<bar>d - r\<bar> \<le> \<bar>d - x\<bar>"
        unfolding r_def to_float_def by (rule round_to_nearest [OF _ xf]) simp
      then have rx: "\<bar>r - x\<bar> \<le> 4 * E" using dx by linarith
      have rf: "representable 24 (- 149) r" unfolding r_def by (rule to_float_representable)
      have "r = x"
      proof (rule ccontr)
        assume "r \<noteq> x"
        then consider "r < x" | "x < r" by linarith
        then show False
        proof cases
          case 1
          then have "r \<le> x - U" using gap(1) [OF rf] by simp
          then show False using rx UE E by linarith
        next
          case 2
          then have "x + U \<le> r" using gap(2) [OF rf] by simp
          then show False using rx UE E by linarith
        qed
      qed
      then show ?thesis using eq by simp
    qed
  qed
  then show ?thesis by (simp add: r x_def)
qed

text \<open>
  The errors of the three roundings, for a smoothed value between 0 and 255: of the
  product, of the sum in \<open>double\<close> and of the conversion to \<open>float\<close>.
\<close>

lemma smooth_steps:
  assumes s: "representable 24 (- 149) s" and X0: "0 \<le> X" and X255: "X \<le> 255"
    and s0: "0 \<le> s" and s255: "s \<le> 255"
  shows "\<exists>t d. \<bar>13421773 / 134217728 * real_of_int X - t\<bar> \<le> 1 / 1048576 \<and>
               \<bar>t + 120795955 / 134217728 * s - d\<bar> \<le> 1 / 35184372088832 \<and>
               \<bar>d - smooth SMOOTHING_FACTOR (real_of_int X) s\<bar> \<le> 1 / 131072"
proof -
  define x where "x = real_of_int X"
  define t where "t = to_float (13421773 / 134217728 * x)"
  define y where "y = t + (1 - 13421773 / 134217728) * s"
  define d where "d = to_double y"
  define r where "r = to_float d"
  have r: "smooth SMOOTHING_FACTOR (real_of_int X) s = r"
    using smooth_code [OF s X0 X255]
    by (simp add: SMOOTHING_FACTOR_value r_def d_def y_def t_def x_def)
  have x0: "0 \<le> x" and x255: "x \<le> 255" using X0 X255 by (simp_all add: x_def)
  have et: "\<bar>13421773 / 134217728 * x - t\<bar> \<le> 1 / 1048576"
  proof (cases "X = 0")
    case True
    then show ?thesis by (simp add: t_def x_def to_float_def round_to_def)
  next
    case False
    then have X1: "0 < X" using X0 by simp
    have "real_of_int X \<le> 2 powi 8" using X255 by simp
    then have "\<bar>13421773 / 134217728 * real_of_int X -
                to_float (13421773 / 134217728 * real_of_int X)\<bar> \<le> 2 powi (8 - 28)"
      by (intro product_error [OF _ X1]) simp_all
    then show ?thesis by (simp add: t_def x_def)
  qed
  have zf: "representable 24 (- 149) 0" using int_representable [of 0] by simp
  have "0 \<le> round_to 24 (- 149) (13421773 / 134217728 * x)"
    by (rule round_to_lower [OF _ zf]) (use x0 in simp_all)
  then have t0: "0 \<le> t" by (simp add: t_def to_float_def)
  have tu: "t \<le> 13421773 / 134217728 * x + 1 / 1048576" using et by linarith
  have b: "(1 - 13421773 / 134217728 :: real) = 120795955 / 134217728" by simp
  have y0: "0 \<le> y" using t0 s0 unfolding y_def by simp
  have y255: "y \<le> 511 / 2" using tu x255 s255 unfolding y_def b by linarith
  have ed: "\<bar>y - d\<bar> \<le> 1 / 35184372088832"
  proof (cases "y = 0")
    case True
    then show ?thesis by (simp add: d_def to_double_def round_to_def)
  next
    case False
    have "\<bar>y\<bar> < 2 powi 9" using y0 y255 by simp
    moreover have "(- 1074::int) \<le> 9 - int 53" by simp
    ultimately have "\<bar>y - round_to 53 (- 1074) y\<bar> \<le> 2 powi (9 - int 53) / 2"
      by (rule round_to_error_below [OF False])
    then show ?thesis by (simp add: d_def to_double_def)
  qed
  have z: "representable 53 (- 1074) 0" by (rule float_is_double [OF zf])
  have "(511 / 2 :: real) = real_of_int 511 * 2 powi (- 1) \<and> \<bar>511::int\<bar> < 2 ^ 53 \<and>
        (- 1074::int) \<le> - 1" by simp
  then have h: "representable 53 (- 1074) (511 / 2)" unfolding representable_def by blast
  have db: "0 \<le> d \<and> d \<le> 511 / 2"
    unfolding d_def by (rule to_double_between [OF z h y0 y255])
  have er: "\<bar>d - r\<bar> \<le> 1 / 131072"
  proof (cases "d = 0")
    case True
    then show ?thesis by (simp add: r_def to_float_def round_to_def)
  next
    case False
    have "\<bar>d\<bar> < 2 powi 8" using db by simp
    moreover have "(- 149::int) \<le> 8 - int 24" by simp
    ultimately have "\<bar>d - round_to 24 (- 149) d\<bar> \<le> 2 powi (8 - int 24) / 2"
      by (rule round_to_error_below [OF False])
    then show ?thesis by (simp add: r_def to_float_def)
  qed
  have "\<bar>13421773 / 134217728 * real_of_int X - t\<bar> \<le> 1 / 1048576 \<and>
        \<bar>t + 120795955 / 134217728 * s - d\<bar> \<le> 1 / 35184372088832 \<and>
        \<bar>d - smooth SMOOTHING_FACTOR (real_of_int X) s\<bar> \<le> 1 / 131072"
    using et ed er unfolding r y_def b x_def by simp
  then show ?thesis by blast
qed

text \<open>
  For a smoothed value between 0 and 255 the update is within \<open>2^-16\<close> of
  \<open>0.1 x + 0.9 s\<close>.
\<close>

lemma smooth_near:
  assumes s: "representable 24 (- 149) s" and X0: "0 \<le> X" and X255: "X \<le> 255"
    and s0: "0 \<le> s" and s255: "s \<le> 255"
  shows "\<bar>smooth SMOOTHING_FACTOR (real_of_int X) s - (real_of_int X / 10 + 9 * s / 10)\<bar> \<le> 1 / 65536"
proof -
  define x where "x = real_of_int X"
  define r where "r = smooth SMOOTHING_FACTOR (real_of_int X) s"
  obtain t d where et: "\<bar>13421773 / 134217728 * x - t\<bar> \<le> 1 / 1048576"
    and ed: "\<bar>t + 120795955 / 134217728 * s - d\<bar> \<le> 1 / 35184372088832"
    and er: "\<bar>d - r\<bar> \<le> 1 / 131072"
    using smooth_steps [OF assms] unfolding x_def r_def by blast
  have x0: "0 \<le> x" and x255: "x \<le> 255" using X0 X255 by (simp_all add: x_def)
  have eq: "(13421773 / 134217728 * x + 120795955 / 134217728 * s) - (x / 10 + 9 * s / 10) =
              (x - s) / 671088640"
    by (simp add: field_simps)
  have "\<bar>x - s\<bar> \<le> 255" using x0 x255 s0 s255 by linarith
  then have c: "\<bar>(13421773 / 134217728 * x + 120795955 / 134217728 * s) - (x / 10 + 9 * s / 10)\<bar>
             \<le> 1 / 2097152"
    unfolding eq by simp
  have "\<bar>r - (x / 10 + 9 * s / 10)\<bar> \<le> 1 / 65536"
    using et ed er c by linarith
  then show ?thesis by (simp add: r_def x_def)
qed

text \<open>
  For a smoothed value between 0 and 255 that differs from the new intensity by 0.0001 or
  more, the update lies strictly between the two.
\<close>

lemma smooth_strict:
  assumes s: "representable 24 (- 149) s" and X0: "0 \<le> X" and X255: "X \<le> 255"
    and s0: "0 \<le> s" and s255: "s \<le> 255" and far: "1 / 10000 \<le> \<bar>real_of_int X - s\<bar>"
  shows "min s (real_of_int X) < smooth SMOOTHING_FACTOR (real_of_int X) s \<and>
         smooth SMOOTHING_FACTOR (real_of_int X) s < max s (real_of_int X)"
proof -
  define x where "x = real_of_int X"
  define r where "r = smooth SMOOTHING_FACTOR (real_of_int X) s"
  obtain t d where et: "\<bar>13421773 / 134217728 * x - t\<bar> \<le> 1 / 1048576"
    and ed: "\<bar>t + 120795955 / 134217728 * s - d\<bar> \<le> 1 / 35184372088832"
    and er: "\<bar>d - r\<bar> \<le> 1 / 131072"
    using smooth_steps [OF s X0 X255 s0 s255] unfolding x_def r_def by blast
  have far': "1 / 10000 \<le> \<bar>x - s\<bar>" using far by (simp add: x_def)
  have "min s x < r \<and> r < max s x"
  proof (cases "s \<le> x")
    case True
    then have "1 / 10000 \<le> x - s" using far' by linarith
    then have "s < r \<and> r < x" using et ed er by linarith
    then show ?thesis using True by simp
  next
    case False
    then have "1 / 10000 \<le> s - x" using far' by linarith
    then have "x < r \<and> r < s" using et ed er by linarith
    then show ?thesis using False by simp
  qed
  then show ?thesis by (simp add: r_def x_def)
qed

subsection \<open>Parameter mapping\<close>

lemma update_unfold:
  "updateLEDPattern st presence motion presenceIntensity motionIntensity now =
     (let st1 = smoothInputs st presenceIntensity motionIntensity;
          c = candidate presence motion (smoothedPresenceIntensity st1) (smoothedMotionIntensity st1)
      in if parametersChanged st c \<and> uint (now - lastPatternChange st) > MIN_UPDATE_INTERVAL
         then (st1\<lparr>lastPatternChange := now, lastHue := newHue c,
                   lastBrightness := newBrightness c, lastSpeed := newSpeed c,
                   lastSpread := newSpread c\<rparr>, Some c)
         else (st1, None))"
  by (simp add: updateLEDPattern_def Let_def smoothInputs_def parametersChanged_def)

lemma emissions_none:
  "lastPatternChange st = now \<Longrightarrow> list_all (\<lambda>out. out = None) (emissions st ins now)"
proof (induction st ins now rule: emissions.induct)
  case (1 st now)
  then show ?case by simp
next
  case (2 st presence motion presenceIntensity motionIntensity rest now)
  let ?r = "updateLEDPattern st presence motion presenceIntensity motionIntensity now"
  have r: "?r = (smoothInputs st presenceIntensity motionIntensity, None)"
    using "2.prems" by (simp add: update_unfold Let_def MIN_UPDATE_INTERVAL_def)
  have "lastPatternChange (fst ?r) = now" using "2.prems" by (simp add: r smoothInputs_def)
  then have "list_all (\<lambda>out. out = None) (emissions (fst ?r) rest now)"
    using "2.IH" [of "(fst ?r, snd ?r)" "fst ?r" "snd ?r"] by simp
  then show ?case by (simp add: r)
qed

text \<open>The smoothed intensities after the first calls from the start-up state.\<close>

lemma smoothInputs_start_100:
  "smoothInputs initialMapper 100 0 =
     initialMapper\<lparr>smoothedPresenceIntensity := 10, smoothedMotionIntensity := 0\<rparr>"
  by (simp add: smoothInputs_def initialMapper_def smooth_def SMOOTHING_FACTOR_value float_eval)

lemma smoothInputs_next_100:
  "smoothInputs (initialMapper\<lparr>smoothedPresenceIntensity := 10, smoothedMotionIntensity := 0\<rparr>) 100 0 =
     initialMapper\<lparr>smoothedPresenceIntensity := 19, smoothedMotionIntensity := 0\<rparr>"
  by (simp add: smoothInputs_def initialMapper_def smooth_def SMOOTHING_FACTOR_value float_eval)

lemma smoothInputs_start_255:
  "smoothInputs initialMapper 255 0 =
     initialMapper\<lparr>smoothedPresenceIntensity := 51 / 2, smoothedMotionIntensity := 0\<rparr>"
  by (simp add: smoothInputs_def initialMapper_def smooth_def SMOOTHING_FACTOR_value float_eval)

text \<open>
  Claim C8, amended. \<open>c\<close> is the candidate computed from the smoothed inputs. The call
  applies the candidate if and only if one of the differences from the parameters last
  applied exceeds its threshold (hue 5, brightness 8, speed 5, spread 1) and more than
  \<open>MIN_UPDATE_INTERVAL\<close> ms have passed since the last applied change; then the
  parameters last applied become the candidate and the time of the last change becomes
  \<open>now\<close>; otherwise both stay as they were. A call made at the time of the last applied
  change applies nothing, and neither does any sequence of calls made at that time,
  whatever their inputs: in particular a repeat of an input that has just been applied.
\<close>

theorem parameter_gate:
  assumes "st1 = smoothInputs st presenceIntensity motionIntensity"
    and "c = candidate presence motion (smoothedPresenceIntensity st1) (smoothedMotionIntensity st1)"
    and "(st', out) = updateLEDPattern st presence motion presenceIntensity motionIntensity now"
  shows "(out \<noteq> None \<longleftrightarrow>
            (\<bar>uint (newHue c) - uint (lastHue st)\<bar> > 5 \<or>
             \<bar>uint (newBrightness c) - uint (lastBrightness st)\<bar> > 8 \<or>
             \<bar>uint (newSpeed c) - uint (lastSpeed st)\<bar> > 5 \<or>
             \<bar>uint (newSpread c) - uint (lastSpread st)\<bar> > 1) \<and>
            uint (now - lastPatternChange st) > MIN_UPDATE_INTERVAL) \<and>
         (out \<noteq> None \<longrightarrow>
            out = Some c \<and> lastHue st' = newHue c \<and> lastBrightness st' = newBrightness c \<and>
            lastSpeed st' = newSpeed c \<and> lastSpread st' = newSpread c \<and>
            lastPatternChange st' = now) \<and>
         (out = None \<longrightarrow>
            lastHue st' = lastHue st \<and> lastBrightness st' = lastBrightness st \<and>
            lastSpeed st' = lastSpeed st \<and> lastSpread st' = lastSpread st \<and>
            lastPatternChange st' = lastPatternChange st) \<and>
         (lastPatternChange st = now \<longrightarrow>
            out = None \<and> list_all (\<lambda>out. out = None) (emissions st ins now))"
proof -
  have u: "(st', out) =
     (if parametersChanged st c \<and> uint (now - lastPatternChange st) > MIN_UPDATE_INTERVAL
      then (st1\<lparr>lastPatternChange := now, lastHue := newHue c,
                 lastBrightness := newBrightness c, lastSpeed := newSpeed c,
                 lastSpread := newSpread c\<rparr>, Some c)
      else (st1, None))"
    using assms by (simp add: update_unfold Let_def)
  have l: "lastHue st1 = lastHue st" "lastBrightness st1 = lastBrightness st"
    "lastSpeed st1 = lastSpeed st" "lastSpread st1 = lastSpread st"
    "lastPatternChange st1 = lastPatternChange st"
    by (simp_all add: assms(1) smoothInputs_def)
  have z: "lastPatternChange st = now \<Longrightarrow> \<not> uint (now - lastPatternChange st) > MIN_UPDATE_INTERVAL"
    by (simp add: MIN_UPDATE_INTERVAL_def)
  show ?thesis
    using u l z emissions_none [of st now ins]
    by (auto simp: parametersChanged_def split: if_splits)
qed

text \<open>
  Claim C8, as stated, fails on its last clause: one second after start-up two calls with
  the same inputs (presence detected with intensity 100) at the same time: the first
  applies nothing, the second applies a brightness of 90, because the first call moved
  the smoothed intensity from 0 to 10 and the second moved it to 19.
\<close>

theorem repeated_input_counterexample:
  "emissions initialMapper [(True, False, 100, 0), (True, False, 100, 0)] 1000 =
     [None, Some \<lparr>newHue = 160, newBrightness = 90, newSpeed = 20, newSpread = 3\<rparr>]"
proof -
  have u1: "updateLEDPattern initialMapper True False 100 0 1000 =
              (initialMapper\<lparr>smoothedPresenceIntensity := 10, smoothedMotionIntensity := 0\<rparr>, None)"
    unfolding updateLEDPattern_def Let_def smoothInputs_start_100 by code_simp
  have u2: "snd (updateLEDPattern
                  (initialMapper\<lparr>smoothedPresenceIntensity := 10, smoothedMotionIntensity := 0\<rparr>)
                  True False 100 0 1000) =
              Some \<lparr>newHue = 160, newBrightness = 90, newSpeed = 20, newSpread = 3\<rparr>"
    unfolding updateLEDPattern_def Let_def smoothInputs_next_100 by code_simp
  show ?thesis by (simp add: split_beta u1 u2)
qed

text \<open>
  The theorem at start-up state: a call at time 1000 with presence intensity 255 applies
  a brightness of 93, a call at time 1000 with presence intensity 100 applies nothing, and
  calls at time 0, the time of the last change, apply nothing.
\<close>

theorem parameter_gate_witness:
  "snd (updateLEDPattern initialMapper True False 255 0 1000) \<noteq> None \<and>
   \<bar>uint (newBrightness (candidate True False
        (smoothedPresenceIntensity (smoothInputs initialMapper 255 0))
        (smoothedMotionIntensity (smoothInputs initialMapper 255 0)))) -
     uint (lastBrightness initialMapper)\<bar> > 8 \<and>
   uint (1000 - lastPatternChange initialMapper) > MIN_UPDATE_INTERVAL \<and>
   lastPatternChange (fst (updateLEDPattern initialMapper True False 255 0 1000)) = 1000 \<and>
   lastBrightness (fst (updateLEDPattern initialMapper True False 255 0 1000)) = 93 \<and>
   snd (updateLEDPattern initialMapper True False 100 0 1000) = None \<and>
   lastBrightness (fst (updateLEDPattern initialMapper True False 100 0 1000)) =
     lastBrightness initialMapper \<and>
   lastPatternChange initialMapper = 0 \<and>
   list_all (\<lambda>out. out = None)
     (emissions initialMapper [(True, False, 255, 0), (True, False, 255, 0)] 0)"
proof -
  let ?st1 = "smoothInputs initialMapper 255 0"
  let ?c = "candidate True False (smoothedPresenceIntensity ?st1) (smoothedMotionIntensity ?st1)"
  let ?r = "updateLEDPattern initialMapper True False 255 0 1000"
  have p: "(fst ?r, snd ?r) = ?r" by simp
  note T = parameter_gate [where ?st1.0 = ?st1 and st = initialMapper and presenceIntensity = 255
      and motionIntensity = 0 and c = ?c and presence = True and motion = False
      and st' = "fst ?r" and out = "snd ?r" and now = 1000
      and ins = "[(True, False, 255, 0), (True, False, 255, 0)]", OF refl refl p]
  have h1: "\<bar>uint (newBrightness ?c) - uint (lastBrightness initialMapper)\<bar> > 8 \<and>
     uint (1000 - lastPatternChange initialMapper) > MIN_UPDATE_INTERVAL \<and>
     newBrightness ?c = 93"
    unfolding smoothInputs_start_255 by code_simp
  have g1: "snd ?r \<noteq> None" using T h1 by blast
  then have g2: "lastPatternChange (fst ?r) = 1000 \<and> lastBrightness (fst ?r) = 93"
    using T h1 by simp
  let ?st2 = "smoothInputs initialMapper 100 0"
  let ?r2 = "updateLEDPattern initialMapper True False 100 0 1000"
  have p2: "(fst ?r2, snd ?r2) = ?r2" by simp
  note T2 = parameter_gate [where ?st1.0 = ?st2 and st = initialMapper and presenceIntensity = 100
      and motionIntensity = 0 and presence = True and motion = False
      and c = "candidate True False (smoothedPresenceIntensity ?st2) (smoothedMotionIntensity ?st2)"
      and st' = "fst ?r2" and out = "snd ?r2" and now = 1000 and ins = "[]",
      OF refl refl p2]
  have h2: "snd ?r2 = None"
    unfolding updateLEDPattern_def Let_def smoothInputs_start_100 by code_simp
  have g3: "lastBrightness (fst ?r2) = lastBrightness initialMapper" using T2 h2 by blast
  let ?r3 = "updateLEDPattern initialMapper True False 255 0 0"
  have p3: "(fst ?r3, snd ?r3) = ?r3" by simp
  note T3 = parameter_gate [where ?st1.0 = ?st1 and st = initialMapper and presenceIntensity = 255
      and motionIntensity = 0 and c = ?c and presence = True and motion = False
      and st' = "fst ?r3" and out = "snd ?r3" and now = 0
      and ins = "[(True, False, 255, 0), (True, False, 255, 0)]", OF refl refl p3]
  have h3: "lastPatternChange initialMapper = 0" by (simp add: initialMapper_def)
  have g4: "list_all (\<lambda>out. out = None)
     (emissions initialMapper [(True, False, 255, 0), (True, False, 255, 0)] 0)"
    using T3 h3 by blast
  show ?thesis using g1 g2 g3 g4 h1 h2 h3 by blast
qed

text \<open>
  Claim C9, as stated, fails in two ways. Where the new intensity equals the smoothed
  value the update returns that value: at start-up the smoothed value is 0, and a poll of
  intensity 0 leaves it at 0, which is not strictly between 0 and 0. And where the two
  differ the rounding can return the prior value: with the smoothed value
  \<open>255 - 5 / 2^16\<close> and the intensity 255 the update returns \<open>255 - 5 / 2^16\<close> again.
\<close>

theorem smoothing_fixed_point_counterexample:
  "smooth SMOOTHING_FACTOR 0 0 = 0 \<and>
   \<not> (min 0 0 < smooth SMOOTHING_FACTOR 0 0 \<and> smooth SMOOTHING_FACTOR 0 0 < max 0 0) \<and>
   smoothedPresenceIntensity initialMapper = 0 \<and>
   smoothedPresenceIntensity (smoothInputs initialMapper 0 0) = 0 \<and>
   to_float settledValue = settledValue \<and> settledValue \<noteq> 255 \<and>
   smooth SMOOTHING_FACTOR 255 settledValue = settledValue \<and>
   \<not> (min settledValue 255 < smooth SMOOTHING_FACTOR 255 settledValue \<and>
      smooth SMOOTHING_FACTOR 255 settledValue < max settledValue 255)"
proof -
  have z: "smooth SMOOTHING_FACTOR 0 0 = 0"
    by (simp add: smooth_def SMOOTHING_FACTOR_value float_eval)
  have f: "to_float settledValue = settledValue"
    by (simp add: settledValue_def float_eval)
  have e: "smooth SMOOTHING_FACTOR 255 settledValue = settledValue"
    by (simp add: settledValue_def smooth_def SMOOTHING_FACTOR_value float_eval)
  have n: "settledValue \<noteq> 255" by (simp add: settledValue_def)
  have i: "smoothedPresenceIntensity initialMapper = 0 \<and>
           smoothedPresenceIntensity (smoothInputs initialMapper 0 0) = 0"
    using z by (simp add: initialMapper_def smoothInputs_def)
  show ?thesis using i f n by (simp add: z e)
qed

text \<open>
  Claim C9, amended. \<open>s\<close> is a value of a \<open>float\<close>, the prior smoothed value, and \<open>x\<close> a
  new intensity. One smoothing update, with the factor \<open>\<alpha>\<close> of the code (the \<open>float\<close>
  0.1, which is strictly between 0 and 1), returns \<open>\<alpha> x + (1 - \<alpha>) s\<close> as the code
  rounds it: the product \<open>\<alpha> x\<close> is rounded to \<open>float\<close>, and the sum is rounded to
  \<open>double\<close> and then to \<open>float\<close>. The result is a \<open>float\<close> and lies between the prior
  smoothed value and the new intensity, the ends included; for a smoothed value between
  0 and 255 it is within \<open>2^-16\<close> of \<open>0.1 x + 0.9 s\<close>, and it lies strictly between the
  smoothed value and the new intensity when the two differ by 0.0001 or more.
  \<open>updateLEDPattern\<close> applies the update to both channels.
\<close>

theorem smoothing_between:
  fixes x :: u8
  assumes "to_float s = s"
  shows "0 < SMOOTHING_FACTOR \<and> SMOOTHING_FACTOR < 1 \<and>
         smooth SMOOTHING_FACTOR (real_of_int (uint x)) s =
           to_float (to_double (to_float (SMOOTHING_FACTOR * real_of_int (uint x)) +
                                (1 - SMOOTHING_FACTOR) * s)) \<and>
         min s (real_of_int (uint x)) \<le> smooth SMOOTHING_FACTOR (real_of_int (uint x)) s \<and>
         smooth SMOOTHING_FACTOR (real_of_int (uint x)) s \<le> max s (real_of_int (uint x)) \<and>
         to_float (smooth SMOOTHING_FACTOR (real_of_int (uint x)) s) =
           smooth SMOOTHING_FACTOR (real_of_int (uint x)) s \<and>
         (0 \<le> s \<and> s \<le> 255 \<longrightarrow>
            \<bar>smooth SMOOTHING_FACTOR (real_of_int (uint x)) s -
               (real_of_int (uint x) / 10 + 9 * s / 10)\<bar> \<le> 1 / 65536) \<and>
         (0 \<le> s \<and> s \<le> 255 \<and> 1 / 10000 \<le> \<bar>real_of_int (uint x) - s\<bar> \<longrightarrow>
            min s (real_of_int (uint x)) < smooth SMOOTHING_FACTOR (real_of_int (uint x)) s \<and>
            smooth SMOOTHING_FACTOR (real_of_int (uint x)) s < max s (real_of_int (uint x))) \<and>
         smoothedPresenceIntensity (smoothInputs st presenceIntensity motionIntensity) =
           smooth SMOOTHING_FACTOR (real_of_int (uint presenceIntensity)) (smoothedPresenceIntensity st) \<and>
         smoothedMotionIntensity (smoothInputs st presenceIntensity motionIntensity) =
           smooth SMOOTHING_FACTOR (real_of_int (uint motionIntensity)) (smoothedMotionIntensity st)"
proof -
  have rep: "representable 24 (- 149) s" using assms by (rule float_representable)
  have x0: "0 \<le> uint x" by simp
  have "uint x < 256" using uint_bounded [of x] by simp
  then have x255: "uint x \<le> 255" by simp
  have c0: "0 < SMOOTHING_FACTOR \<and> SMOOTHING_FACTOR < 1"
    by (simp add: SMOOTHING_FACTOR_value)
  note c1 = smooth_code [OF rep x0 x255]
  note c2 = smooth_between [OF rep x0 x255]
  have c3: "to_float (smooth SMOOTHING_FACTOR (real_of_int (uint x)) s) =
              smooth SMOOTHING_FACTOR (real_of_int (uint x)) s"
    unfolding smooth_def by (rule to_float_exact [OF to_float_representable])
  have c6: "0 \<le> s \<and> s \<le> 255 \<longrightarrow>
            \<bar>smooth SMOOTHING_FACTOR (real_of_int (uint x)) s -
               (real_of_int (uint x) / 10 + 9 * s / 10)\<bar> \<le> 1 / 65536"
    using smooth_near [OF rep x0 x255] by blast
  have c7: "0 \<le> s \<and> s \<le> 255 \<and> 1 / 10000 \<le> \<bar>real_of_int (uint x) - s\<bar> \<longrightarrow>
            min s (real_of_int (uint x)) < smooth SMOOTHING_FACTOR (real_of_int (uint x)) s \<and>
            smooth SMOOTHING_FACTOR (real_of_int (uint x)) s < max s (real_of_int (uint x))"
    using smooth_strict [OF rep x0 x255] by blast
  have c4: "smoothedPresenceIntensity (smoothInputs st presenceIntensity motionIntensity) =
           smooth SMOOTHING_FACTOR (real_of_int (uint presenceIntensity)) (smoothedPresenceIntensity st)"
    and c5: "smoothedMotionIntensity (smoothInputs st presenceIntensity motionIntensity) =
           smooth SMOOTHING_FACTOR (real_of_int (uint motionIntensity)) (smoothedMotionIntensity st)"
    by (simp_all add: smoothInputs_def)
  show ?thesis using c0 c1 c2 c3 c4 c5 c6 c7 by blast
qed

text \<open>
  The theorem at the smoothed value 10 and the intensity 100: the update returns 19.
\<close>

theorem smoothing_between_witness:
  "to_float 10 = 10 \<and>
   min 10 (real_of_int (uint (100::u8))) \<le> smooth SMOOTHING_FACTOR (real_of_int (uint (100::u8))) 10 \<and>
   smooth SMOOTHING_FACTOR (real_of_int (uint (100::u8))) 10 \<le> max 10 (real_of_int (uint (100::u8))) \<and>
   ((0::real) \<le> 10 \<and> (10::real) \<le> 255) \<and>
   \<bar>smooth SMOOTHING_FACTOR (real_of_int (uint (100::u8))) 10 -
      (real_of_int (uint (100::u8)) / 10 + 9 * 10 / 10)\<bar> \<le> 1 / 65536 \<and>
   ((0::real) \<le> 10 \<and> (10::real) \<le> 255 \<and> 1 / 10000 \<le> \<bar>real_of_int (uint (100::u8)) - 10\<bar>) \<and>
   min 10 (real_of_int (uint (100::u8))) < smooth SMOOTHING_FACTOR (real_of_int (uint (100::u8))) 10 \<and>
   smooth SMOOTHING_FACTOR (real_of_int (uint (100::u8))) 10 < max 10 (real_of_int (uint (100::u8))) \<and>
   smooth SMOOTHING_FACTOR (real_of_int (uint (100::u8))) 10 = 19"
proof -
  have h: "to_float 10 = 10" by (simp add: float_eval)
  have h': "(0::real) \<le> 10 \<and> (10::real) \<le> 255" by simp
  note T = smoothing_between [OF h, of 100 initialMapper 0 0]
  have g3: "\<bar>smooth SMOOTHING_FACTOR (real_of_int (uint (100::u8))) 10 -
      (real_of_int (uint (100::u8)) / 10 + 9 * 10 / 10)\<bar> \<le> 1 / 65536"
    using T h' by blast
  have h'': "(0::real) \<le> 10 \<and> (10::real) \<le> 255 \<and>
             1 / 10000 \<le> \<bar>real_of_int (uint (100::u8)) - 10\<bar>" by simp
  have g4: "min 10 (real_of_int (uint (100::u8))) <
              smooth SMOOTHING_FACTOR (real_of_int (uint (100::u8))) 10 \<and>
            smooth SMOOTHING_FACTOR (real_of_int (uint (100::u8))) 10 <
              max 10 (real_of_int (uint (100::u8)))"
    using T h'' by blast
  have g1: "min 10 (real_of_int (uint (100::u8))) \<le>
              smooth SMOOTHING_FACTOR (real_of_int (uint (100::u8))) 10"
    using T by (elim conjE)
  have g2: "smooth SMOOTHING_FACTOR (real_of_int (uint (100::u8))) 10 \<le>
              max 10 (real_of_int (uint (100::u8)))"
    using T by (elim conjE)
  have e: "smooth SMOOTHING_FACTOR (real_of_int (uint (100::u8))) 10 = 19"
    by (simp add: smooth_def SMOOTHING_FACTOR_value float_eval)
  show ?thesis using h h' h'' g1 g2 g3 g4 e by blast
qed

subsection \<open>Transitions\<close>

text \<open>
  Claim C3 at the transition from black to white: a black frame is captured, white is
  rendered into \<open>leds\<close> and a transition of 1000 ms starts at time 0, as the header
  describes \<open>startTransition\<close> (a transition from the previous state to the current state).
  The claim has the output at the end equal to the target, the rendered white frame. In
  the code the tick at time 500 overwrites the rendered frame with the blend
  (127, 127, 127), and the tick at time 1000 only marks the transition inactive: the strip
  ends on (127, 127, 127). When the first tick comes 3 ms after the start, its amount is
  0, the rendered frame is overwritten with the previous one, and the strip ends on black.
\<close>

theorem transition_loses_rendered_frame:
  "leds fadeToWhite = [white] \<and> prevLeds fadeToWhite = [black] \<and>
   snd (updateTransitions fadeToWhite 500) \<and>
   \<not> snd (updateTransitions (fst (updateTransitions fadeToWhite 500)) 1000) \<and>
   \<not> transitionActive (fst (updateTransitions (fst (updateTransitions fadeToWhite 500)) 1000)) \<and>
   leds (fst (updateTransitions (fst (updateTransitions fadeToWhite 500)) 1000)) =
     [\<lparr>red = 127, green = 127, blue = 127\<rparr>] \<and>
   leds (fst (updateTransitions (fst (updateTransitions fadeToWhite 500)) 1000)) \<noteq> [white] \<and>
   leds (fst (updateTransitions fadeToWhite 3)) = [black] \<and>
   \<not> transitionActive (fst (updateTransitions (fst (updateTransitions fadeToWhite 3)) 1000)) \<and>
   leds (fst (updateTransitions (fst (updateTransitions fadeToWhite 3)) 1000)) = [black]"
  by code_simp

lemma uint_blend8:
  "uint (blend8 a b m) = (uint a * (256 - uint m) + uint b * (uint m + 1)) div 256"
proof -
  let ?A = "uint a" and ?B = "uint b" and ?M = "uint m"
  let ?N = "?A * (256 - ?M) + ?B * (?M + 1)"
  have b: "0 \<le> ?A" "?A \<le> 255" "0 \<le> ?B" "?B \<le> 255" "0 \<le> ?M" "?M \<le> 255"
    using uint_bounded [of a] uint_bounded [of b] uint_bounded [of m] by simp_all
  have "?A * (256 - ?M) \<le> 255 * (256 - ?M)" using b by (intro mult_right_mono) simp_all
  moreover have "?B * (?M + 1) \<le> 255 * (?M + 1)" using b by (intro mult_right_mono) simp_all
  ultimately have u: "?N \<le> 255 * 257" by simp
  have "0 \<le> ?A * (256 - ?M)" "0 \<le> ?B * (?M + 1)" using b by simp_all
  then have l: "0 \<le> ?N" by simp
  have e: "?A * (255 - ?M) + ?A + ?B * ?M + ?B = ?N" by (simp add: algebra_simps)
  have "0 \<le> ?N div 256" "?N div 256 < 256" using l u by simp_all
  then show ?thesis
    unfolding blend8_def e by (simp add: uint_word_of_int take_bit_int_eq_self)
qed

lemma blend8_between:
  "min (uint a) (uint b) \<le> uint (blend8 a b m) \<and> uint (blend8 a b m) \<le> max (uint a) (uint b)"
proof -
  define A B M where "A = uint a" and "B = uint b" and "M = uint m"
  define X where "X = M * (B - A)"
  define N where "N = A * (256 - M) + B * (M + 1)"
  have b: "0 \<le> A" "A \<le> 255" "0 \<le> B" "B \<le> 255" "0 \<le> M" "M \<le> 255"
    using uint_bounded [of a] uint_bounded [of b] uint_bounded [of m]
    by (simp_all add: A_def B_def M_def)
  have n: "N = 256 * A + X + B" by (simp add: N_def X_def algebra_simps)
  have u: "uint (blend8 a b m) = N div 256"
    by (simp add: uint_blend8 N_def A_def B_def M_def)
  show ?thesis
  proof (cases "A \<le> B")
    case True
    then have d: "0 \<le> B - A" by simp
    have x1: "0 \<le> X" unfolding X_def using b(5) d by (rule mult_nonneg_nonneg)
    have x2: "X \<le> 255 * (B - A)" unfolding X_def using b(6) d by (rule mult_right_mono)
    have "256 * A \<le> N" using n x1 b by simp
    moreover have "N < 256 * (B + 1)" using n x2 b by simp
    ultimately have "A \<le> N div 256" "N div 256 \<le> B" by simp_all
    then show ?thesis using True unfolding u A_def [symmetric] B_def [symmetric]
      by (simp add: min_def max_def)
  next
    case False
    then have d: "B - A \<le> 0" by simp
    have x1: "X \<le> 0" unfolding X_def using b(5) d by (rule mult_nonneg_nonpos)
    have x2: "255 * (B - A) \<le> X" unfolding X_def using b(6) d by (rule mult_right_mono_neg)
    have "256 * B \<le> N" using n x2 b by simp
    moreover have "N < 256 * (A + 1)" using n x1 b by simp
    ultimately have "B \<le> N div 256" "N div 256 \<le> A" by simp_all
    then show ?thesis using False unfolding u A_def [symmetric] B_def [symmetric]
      by (simp add: min_def max_def)
  qed
qed

lemma blend_between:
  "min (uint (red p)) (uint (red c)) \<le> uint (red (blend p c m)) \<and>
   uint (red (blend p c m)) \<le> max (uint (red p)) (uint (red c)) \<and>
   min (uint (green p)) (uint (green c)) \<le> uint (green (blend p c m)) \<and>
   uint (green (blend p c m)) \<le> max (uint (green p)) (uint (green c)) \<and>
   min (uint (blue p)) (uint (blue c)) \<le> uint (blue (blend p c m)) \<and>
   uint (blue (blend p c m)) \<le> max (uint (blue p)) (uint (blue c))"
  using blend8_between [of "red p" "red c" m] blend8_between [of "green p" "green c" m]
    blend8_between [of "blue p" "blue c" m]
  by (simp add: blend_def)

lemma div_below_255:
  fixes e d :: int
  assumes "0 \<le> e" and "e < d"
  shows "0 \<le> (255 * e) div d \<and> (255 * e) div d < 255"
proof -
  have d: "0 < d" using assms by simp
  define q where "q = (255 * e) div d"
  define r where "r = (255 * e) mod d"
  define dq where "dq = d * q"
  have m: "dq + r = 255 * e" unfolding q_def r_def dq_def by (rule mult_div_mod_eq)
  have r: "0 \<le> r" unfolding r_def using d by simp
  have "q < 255"
  proof (rule ccontr)
    assume "\<not> q < 255"
    then have "255 \<le> q" by simp
    then have "d * 255 \<le> dq" unfolding dq_def using d by (intro mult_left_mono) simp_all
    then show False using m r assms by simp
  qed
  moreover have "0 \<le> q" unfolding q_def using assms d by (simp add: pos_imp_zdiv_nonneg_iff)
  ultimately show ?thesis by (simp add: q_def)
qed

lemma amount_floor:
  assumes "0 \<le> e" and "e < d"
  shows "uint (to_uint8 (real_of_int e / real_of_int d * 255)) = (255 * e) div d"
proof -
  have d: "0 < d" using assms by simp
  have x: "real_of_int e / real_of_int d * 255 = real_of_int (255 * e) / real_of_int d"
    by simp
  have f: "\<lfloor>real_of_int e / real_of_int d * 255\<rfloor> = (255 * e) div d"
    unfolding x by (simp only: floor_divide_of_int_eq)
  have "0 \<le> real_of_int e / real_of_int d * 255" using assms d by simp
  then have t: "truncate_real (real_of_int e / real_of_int d * 255) = (255 * e) div d"
    using f by (simp add: truncate_real_def)
  show ?thesis
    unfolding to_uint8_def t using div_below_255 [OF assms]
    by (simp add: uint_word_of_int take_bit_int_eq_self)
qed

lemma blend_0: "blend p c 0 = p"
  by (simp add: blend_def)

lemma map2_fst: "length xs = length ys \<Longrightarrow> map2 (\<lambda>p c. p) xs ys = xs"
  by (induction xs ys rule: list_induct2) simp_all

text \<open>
  What one call of \<open>updateTransitions\<close> does on an active transition. With
  \<open>elapsed = now - start\<close> below the duration it returns true, keeps the transition active
  and overwrites every pixel of the frame with the blend of the captured previous pixel
  and the pixel's current content, by the amount \<open>255 * elapsed div duration\<close> out of 255;
  every channel of the result lies between the previous and the current value of that
  channel, and at \<open>elapsed = 0\<close> the frame equals the previous frame. With \<open>elapsed\<close> at or
  above the duration it returns false, marks the transition inactive and leaves the frame
  as the last call left it. The previous frame is never changed.
\<close>

lemma updateTransitions_tick:
  assumes "transitionActive t" and "length (prevLeds t) = length (leds t)"
    and "elapsed = uint (now - transitionStartTime t)"
    and "duration = uint (transitionDuration t)"
    and "amount = to_uint8 (real_of_int elapsed / real_of_int duration * 255)"
    and "(t', still) = updateTransitions t now"
  shows "(elapsed \<ge> duration \<longrightarrow>
            \<not> still \<and> \<not> transitionActive t' \<and> leds t' = leds t) \<and>
         (elapsed < duration \<longrightarrow>
            still \<and> transitionActive t' \<and> uint amount = (255 * elapsed) div duration \<and>
            length (leds t') = length (leds t) \<and>
            (\<forall>i < length (leds t).
               leds t' ! i = blend (prevLeds t ! i) (leds t ! i) amount \<and>
               min (uint (red (prevLeds t ! i))) (uint (red (leds t ! i))) \<le> uint (red (leds t' ! i)) \<and>
               uint (red (leds t' ! i)) \<le> max (uint (red (prevLeds t ! i))) (uint (red (leds t ! i))) \<and>
               min (uint (green (prevLeds t ! i))) (uint (green (leds t ! i))) \<le> uint (green (leds t' ! i)) \<and>
               uint (green (leds t' ! i)) \<le> max (uint (green (prevLeds t ! i))) (uint (green (leds t ! i))) \<and>
               min (uint (blue (prevLeds t ! i))) (uint (blue (leds t ! i))) \<le> uint (blue (leds t' ! i)) \<and>
               uint (blue (leds t' ! i)) \<le> max (uint (blue (prevLeds t ! i))) (uint (blue (leds t ! i))))) \<and>
         (elapsed = 0 \<and> 0 < duration \<longrightarrow> leds t' = prevLeds t) \<and>
         prevLeds t' = prevLeds t"
proof -
  have u: "(t', still) =
     (if elapsed \<ge> duration then (t\<lparr>transitionActive := False\<rparr>, False)
      else (t\<lparr>leds := map2 (\<lambda>p c. blend p c amount) (prevLeds t) (leds t)\<rparr>, True))"
    using assms by (simp add: updateTransitions_def Let_def)
  have c1: "elapsed \<ge> duration \<longrightarrow> \<not> still \<and> \<not> transitionActive t' \<and> leds t' = leds t"
    using u by auto
  have c4: "prevLeds t' = prevLeds t" using u by (auto split: if_splits)
  have c2: "elapsed < duration \<longrightarrow>
            still \<and> transitionActive t' \<and> uint amount = (255 * elapsed) div duration \<and>
            length (leds t') = length (leds t) \<and>
            (\<forall>i < length (leds t).
               leds t' ! i = blend (prevLeds t ! i) (leds t ! i) amount \<and>
               min (uint (red (prevLeds t ! i))) (uint (red (leds t ! i))) \<le> uint (red (leds t' ! i)) \<and>
               uint (red (leds t' ! i)) \<le> max (uint (red (prevLeds t ! i))) (uint (red (leds t ! i))) \<and>
               min (uint (green (prevLeds t ! i))) (uint (green (leds t ! i))) \<le> uint (green (leds t' ! i)) \<and>
               uint (green (leds t' ! i)) \<le> max (uint (green (prevLeds t ! i))) (uint (green (leds t ! i))) \<and>
               min (uint (blue (prevLeds t ! i))) (uint (blue (leds t ! i))) \<le> uint (blue (leds t' ! i)) \<and>
               uint (blue (leds t' ! i)) \<le> max (uint (blue (prevLeds t ! i))) (uint (blue (leds t ! i))))"
  proof
    assume lt: "elapsed < duration"
    have e0: "0 \<le> elapsed" by (simp add: assms(3))
    have t': "t' = t\<lparr>leds := map2 (\<lambda>p c. blend p c amount) (prevLeds t) (leds t)\<rparr>"
      and s: "still" using u lt by simp_all
    have a: "uint amount = (255 * elapsed) div duration"
      unfolding assms(5) by (rule amount_floor [OF e0 lt])
    have l: "length (leds t') = length (leds t)" using assms(2) by (simp add: t')
    have n: "leds t' ! i = blend (prevLeds t ! i) (leds t ! i) amount" if "i < length (leds t)" for i
      using that assms(2) by (simp add: t')
    show "still \<and> transitionActive t' \<and> uint amount = (255 * elapsed) div duration \<and>
            length (leds t') = length (leds t) \<and>
            (\<forall>i < length (leds t).
               leds t' ! i = blend (prevLeds t ! i) (leds t ! i) amount \<and>
               min (uint (red (prevLeds t ! i))) (uint (red (leds t ! i))) \<le> uint (red (leds t' ! i)) \<and>
               uint (red (leds t' ! i)) \<le> max (uint (red (prevLeds t ! i))) (uint (red (leds t ! i))) \<and>
               min (uint (green (prevLeds t ! i))) (uint (green (leds t ! i))) \<le> uint (green (leds t' ! i)) \<and>
               uint (green (leds t' ! i)) \<le> max (uint (green (prevLeds t ! i))) (uint (green (leds t ! i))) \<and>
               min (uint (blue (prevLeds t ! i))) (uint (blue (leds t ! i))) \<le> uint (blue (leds t' ! i)) \<and>
               uint (blue (leds t' ! i)) \<le> max (uint (blue (prevLeds t ! i))) (uint (blue (leds t ! i))))"
      using s a l assms(1) n blend_between by (simp add: t')
  qed
  have c3: "elapsed = 0 \<and> 0 < duration \<longrightarrow> leds t' = prevLeds t"
  proof
    assume h: "elapsed = 0 \<and> 0 < duration"
    then have z: "amount = 0" by (simp add: assms(5) to_uint8_def truncate_real_def)
    have "t' = t\<lparr>leds := map2 (\<lambda>p c. blend p c amount) (prevLeds t) (leds t)\<rparr>"
      using u h by simp
    then show "leds t' = prevLeds t"
      using map2_fst [OF assms(2)] by (simp add: z blend_0)
  qed
  show ?thesis using c1 c2 c3 c4 by blast
qed

text \<open>
  The lemma at the transition from black to white, at the times 500, 1000 and 0.
\<close>

lemma updateTransitions_tick_example:
  "transitionActive fadeToWhite \<and> length (prevLeds fadeToWhite) = length (leds fadeToWhite) \<and>
   uint (500 - transitionStartTime fadeToWhite) < uint (transitionDuration fadeToWhite) \<and>
   snd (updateTransitions fadeToWhite 500) \<and>
   uint (to_uint8 (real_of_int (uint (500 - transitionStartTime fadeToWhite)) /
                   real_of_int (uint (transitionDuration fadeToWhite)) * 255)) =
     (255 * uint (500 - transitionStartTime fadeToWhite)) div
       uint (transitionDuration fadeToWhite) \<and>
   (255 * uint (500 - transitionStartTime fadeToWhite)) div
     uint (transitionDuration fadeToWhite) = 127 \<and>
   (0::nat) < length (leds fadeToWhite) \<and>
   uint (red (leds (fst (updateTransitions fadeToWhite 500)) ! 0))
     \<le> max (uint (red (prevLeds fadeToWhite ! 0))) (uint (red (leds fadeToWhite ! 0))) \<and>
   uint (1000 - transitionStartTime fadeToWhite) \<ge> uint (transitionDuration fadeToWhite) \<and>
   \<not> snd (updateTransitions fadeToWhite 1000) \<and>
   leds (fst (updateTransitions fadeToWhite 1000)) = leds fadeToWhite \<and>
   uint (0 - transitionStartTime fadeToWhite) = 0 \<and>
   0 < uint (transitionDuration fadeToWhite) \<and>
   leds (fst (updateTransitions fadeToWhite 0)) = prevLeds fadeToWhite"
proof -
  have a: "transitionActive fadeToWhite"
    and l: "length (prevLeds fadeToWhite) = length (leds fadeToWhite)"
    by code_simp+
  have p: "(fst (updateTransitions fadeToWhite n), snd (updateTransitions fadeToWhite n)) =
             updateTransitions fadeToWhite n" for n by simp
  note T = updateTransitions_tick [OF a l refl refl refl p]
  have h1: "uint (500 - transitionStartTime fadeToWhite) < uint (transitionDuration fadeToWhite)"
    by code_simp
  have h2: "(0::nat) < length (leds fadeToWhite)" by code_simp
  have h3: "uint (1000 - transitionStartTime fadeToWhite) \<ge> uint (transitionDuration fadeToWhite)"
    by code_simp
  have h4: "uint (0 - transitionStartTime fadeToWhite) = 0 \<and>
            0 < uint (transitionDuration fadeToWhite)"
    by code_simp
  have h5: "(255 * uint (500 - transitionStartTime fadeToWhite)) div
              uint (transitionDuration fadeToWhite) = 127"
    by code_simp
  have g1: "snd (updateTransitions fadeToWhite 500) \<and>
    uint (to_uint8 (real_of_int (uint (500 - transitionStartTime fadeToWhite)) /
                   real_of_int (uint (transitionDuration fadeToWhite)) * 255)) =
     (255 * uint (500 - transitionStartTime fadeToWhite)) div
       uint (transitionDuration fadeToWhite) \<and>
    uint (red (leds (fst (updateTransitions fadeToWhite 500)) ! 0))
     \<le> max (uint (red (prevLeds fadeToWhite ! 0))) (uint (red (leds fadeToWhite ! 0)))"
    using T [of 500] h1 h2 by blast
  have g2: "\<not> snd (updateTransitions fadeToWhite 1000) \<and>
    leds (fst (updateTransitions fadeToWhite 1000)) = leds fadeToWhite"
    using T [of 1000] h3 by blast
  have g3: "leds (fst (updateTransitions fadeToWhite 0)) = prevLeds fadeToWhite"
    using T [of 0] h4 by blast
  show ?thesis using a l h1 h2 h3 h4 h5 g1 g2 g3 by blast
qed

end
